theory Spec2Isabelle
  imports Main "HOL-Library.Word"
begin

section \<open>Data model\<close>

text \<open>
  The program \<^verbatim>\<open>build_payload.cpp\<close> reads binary files and writes C/C++ array
  declarations. Bytes are \<^verbatim>\<open>unsigned char\<close>, the layout parameters are \<^verbatim>\<open>unsigned\<close>
  (32 bits, wrapping arithmetic).
\<close>

type_synonym byte = "8 word"
type_synonym uint = "32 word"

text \<open>
  A \<^verbatim>\<open>std::ostream\<close> is modelled by the sequence of items inserted with \<^verbatim>\<open><<\<close>, in
  order; the text of the stream is their concatenation. \<^verbatim>\<open>std::endl\<close> inserts a newline.
\<close>

type_synonym ostream = "string list"

definition text_of :: "ostream \<Rightarrow> string" where
  "text_of out = concat out"

definition endl :: string where
  "endl = [CHR 0x0A]"

text \<open>
  A \<^verbatim>\<open>std::istream\<close>: the bytes not yet consumed and the fail state that
  \<^verbatim>\<open>while (inputStream)\<close> tests. \<^verbatim>\<open>read(&c, 1)\<close> delivers the next byte, or sets the fail
  state and leaves \<^verbatim>\<open>c\<close> untouched when no byte is left.
\<close>

record istream =
  pending :: "byte list"
  failed :: bool

definition istream_read :: "istream \<Rightarrow> byte option \<times> istream" where
  "istream_read s =
     (case pending s of
        [] \<Rightarrow> (None, s\<lparr>failed := True\<rparr>)
      | b # rest \<Rightarrow> (Some b, s\<lparr>pending := rest\<rparr>))"

section \<open>parseAndDumpInput\<close>

subsection \<open>The read loop (lines 81-86)\<close>

text \<open>
  \<^verbatim>\<open>readData\<close> is declared without initialiser inside the loop body; \<open>uninit\<close> is the
  indeterminate value it holds when \<^verbatim>\<open>read\<close> stores nothing. The \<^verbatim>\<open>push_back\<close> is
  executed after every \<^verbatim>\<open>read\<close>, the failing one included.
\<close>

function readLoop :: "byte \<Rightarrow> istream \<Rightarrow> byte list \<Rightarrow> byte list" where
  "readLoop uninit inputStream inputBuffer =
     (if \<not> failed inputStream then
        (let (r, s') = istream_read inputStream;
             readData = (case r of None \<Rightarrow> uninit | Some b \<Rightarrow> b)
         in readLoop uninit s' (inputBuffer @ [readData]))
      else inputBuffer)"
  by pat_completeness auto
termination
  by (relation "measure (\<lambda>(u, s, buf). length (pending s) + (if failed s then 0 else 1))")
     (auto simp: istream_read_def split: list.splits)

declare readLoop.simps [simp del]

subsection \<open>Number formatting\<close>

text \<open>\<^verbatim>\<open>operator<<(unsigned long)\<close>: decimal digits, no padding.\<close>

definition digit_char :: "nat \<Rightarrow> char" where
  "digit_char d = ''0123456789'' ! d"

function decimal :: "nat \<Rightarrow> string" where
  "decimal n = (if n < 10 then [digit_char n] else decimal (n div 10) @ [digit_char (n mod 10)])"
  by pat_completeness auto
termination
  by (relation "measure id") auto

declare decimal.simps [simp del]

text \<open>\<^verbatim>\<open>sprintf(buffer, "0x%02X", v)\<close>: two uppercase hexadecimal digits, zero padded.\<close>

definition hex_digit :: "nat \<Rightarrow> char" where
  "hex_digit d = ''0123456789ABCDEF'' ! d"

definition hexByte :: "byte \<Rightarrow> string" where
  "hexByte v = ''0x'' @ [hex_digit (unat v div 16), hex_digit (unat v mod 16)]"

subsection \<open>Indentation strings (lines 91-99)\<close>

primrec spaces :: "nat \<Rightarrow> string" where
  "spaces 0 = []"
| "spaces (Suc n) = spaces n @ '' ''"

definition leftIndentationString :: "uint \<Rightarrow> string" where
  "leftIndentationString leftIndentation = spaces (unat leftIndentation)"

definition contentsIndentationString :: "uint \<Rightarrow> uint \<Rightarrow> string" where
  "contentsIndentationString leftIndentation indentation = spaces (unat (leftIndentation + indentation))"

subsection \<open>The array body (lines 106-125)\<close>

definition valuesPerLine :: "uint \<Rightarrow> uint \<Rightarrow> uint \<Rightarrow> uint" where
  "valuesPerLine width indentation leftIndentation = (width - indentation - leftIndentation + 1) div 6"

text \<open>
  The \<^verbatim>\<open>for\<close> loop over \<open>i\<close>. \<open>numberBytes\<close> is the size of \<open>outputData\<close>; inside the
  loop \<open>i < numberBytes\<close>, so \<open>numberBytes - 1\<close> does not wrap.
\<close>

function dumpLoop :: "string \<Rightarrow> uint \<Rightarrow> byte list \<Rightarrow> nat \<Rightarrow> nat \<Rightarrow> uint \<Rightarrow> ostream \<Rightarrow> ostream" where
  "dumpLoop cis vpl outputData numberBytes i valuesThisLine outputStream =
     (if i < numberBytes then
        (let (out1, vtl1) =
               (if valuesThisLine \<ge> vpl then (outputStream @ [endl, cis], 1)
                else (outputStream, valuesThisLine + 1));
             v = outputData ! i;
             out2 = out1 @ [hexByte v];
             out3 = (if i < numberBytes - 1 then out2 @ ['', ''] else out2)
         in dumpLoop cis vpl outputData numberBytes (i + 1) vtl1 out3)
      else outputStream)"
  by pat_completeness auto
termination
  by (relation "measure (\<lambda>(cis, vpl, d, n, i, vtl, out). n - i)") auto

declare dumpLoop.simps [simp del]

subsection \<open>The whole function (lines 68-135)\<close>

text \<open>
  \<open>qCompress\<close> is Qt's library function, not part of this program: it is a parameter.
  The result is the returned flag and the output stream.
\<close>

definition parseAndDumpInput ::
  "(byte list \<Rightarrow> int \<Rightarrow> byte list) \<Rightarrow> byte \<Rightarrow> istream \<Rightarrow> ostream \<Rightarrow> uint \<Rightarrow> uint \<Rightarrow> uint \<Rightarrow>
   string \<Rightarrow> string \<Rightarrow> string \<Rightarrow> string \<Rightarrow> string \<Rightarrow> bool \<Rightarrow> bool \<times> ostream" where
  "parseAndDumpInput qCompress uninit inputStream outputStream leftIndentation indentation width
       prefix variableName variableType sizeVariableName sizeVariableType zlibCompress =
     (let inputBuffer = readLoop uninit inputStream [];
          byteArray = inputBuffer;
          outputData = (if zlibCompress then qCompress byteArray 9 else byteArray);
          lis = leftIndentationString leftIndentation;
          cis = contentsIndentationString leftIndentation indentation;
          numberBytes = length outputData;
          out1 = outputStream @ [lis, variableType, '' '', prefix, variableName, ''['',
                                 decimal numberBytes, ''] = {''];
          vpl = valuesPerLine width indentation leftIndentation;
          out2 = dumpLoop cis vpl outputData numberBytes 0 vpl out1;
          out3 = out2 @ [endl, lis, ''};'', endl, endl, lis, sizeVariableType, '' '', prefix,
                         sizeVariableName, '' = '', decimal numberBytes, '';'', endl, endl]
      in (True, out3))"

section \<open>buildPayloadHelper\<close>

subsection \<open>The banner (lines 186-225)\<close>

text \<open>
  \<^verbatim>\<open>for (unsigned column=c ; column<=bound ; ++column) outputStream << "*";\<close>
  The increment wraps around, so the loop does not end when \<open>bound\<close> is the largest
  \<^verbatim>\<open>unsigned\<close> value: the function is partial, and \<open>None\<close> stands for a run that does not
  return.
\<close>

partial_function (option) starLoop :: "uint \<Rightarrow> uint \<Rightarrow> ostream \<Rightarrow> ostream option" where
  "starLoop column bound outputStream =
     (if column \<le> bound then starLoop (column + 1) bound (outputStream @ [''*''])
      else Some outputStream)"

declare starLoop.simps [code]

text \<open>
  \<^verbatim>\<open>while (std::getline(stream, line))\<close> over a \<^verbatim>\<open>std::istringstream\<close>: the lines of the
  string; a final newline does not start another line.
\<close>

fun getlines :: "string \<Rightarrow> string \<Rightarrow> string list" where
  "getlines cur [] = (if cur = [] then [] else [cur])"
| "getlines cur (c # cs) = (if c = CHR 0x0A then cur # getlines [] cs else getlines (cur @ [c]) cs)"

fun commentLines :: "string list \<Rightarrow> ostream \<Rightarrow> ostream" where
  "commentLines [] outputStream = outputStream"
| "commentLines (l # ls) outputStream = commentLines ls (outputStream @ [''* '', l, endl])"

definition banner :: "string \<Rightarrow> string \<Rightarrow> bool \<Rightarrow> uint \<Rightarrow> ostream \<Rightarrow> ostream option" where
  "banner description copyrightMessage noCopyrightMessage width outputStream =
     (if \<not> noCopyrightMessage \<or> description \<noteq> [] then
        (case starLoop 13 width (outputStream @ [''/*-*-c++-*-*'']) of
           None \<Rightarrow> None
         | Some out1 \<Rightarrow>
            (let out2 = out1 @ [endl];
                 out3 = (if \<not> noCopyrightMessage then commentLines (getlines [] copyrightMessage) out2
                         else out2)
             in (case (if \<not> noCopyrightMessage \<and> description \<noteq> []
                       then map_option (\<lambda>out. out @ [''//**'', endl]) (starLoop 1 (width - 4) out3)
                       else Some out3) of
                   None \<Rightarrow> None
                 | Some out4 \<Rightarrow>
                    (let out5 = (if description \<noteq> []
                                 then commentLines (getlines [] description)
                                        (out4 @ [''* '' @ [CHR 0x5C] @ ''file'', endl, ''*'', endl])
                                 else out4)
                     in map_option (\<lambda>out. out @ [''/'', endl, endl]) (starLoop 1 (width - 1) out5)))))
      else Some outputStream)"

subsection \<open>The environment\<close>

text \<open>
  What the program reads from outside: the files that can be opened for reading with their
  contents, the standard input, the paths that can be opened for writing, Qt's
  \<^verbatim>\<open>qCompress\<close>, and the indeterminate value of \<^verbatim>\<open>readData\<close> in the call of
  \<^verbatim>\<open>parseAndDumpInput\<close> for the \<open>k\<close>-th input.
\<close>

record world =
  files :: "string \<Rightarrow> byte list option"
  stdin :: istream
  writable :: "string \<Rightarrow> bool"
  qCompress :: "byte list \<Rightarrow> int \<Rightarrow> byte list"
  uninit :: "nat \<Rightarrow> byte"

text \<open>\<^verbatim>\<open>std::ifstream inputStream(name, std::ios::binary)\<close>\<close>

definition ifstream_open :: "world \<Rightarrow> string \<Rightarrow> istream" where
  "ifstream_open w name =
     (case files w name of
        None \<Rightarrow> \<lparr>pending = [], failed = True\<rparr>
      | Some bytes \<Rightarrow> \<lparr>pending = bytes, failed = False\<rparr>)"

subsection \<open>The variable name prefix (lines 279-298)\<close>

text \<open>\<^verbatim>\<open>std::string::rfind(char)\<close>: the last position of the character, \<open>None\<close> for \<^verbatim>\<open>npos\<close>.\<close>

fun rfind :: "string \<Rightarrow> char \<Rightarrow> nat option" where
  "rfind [] c = None"
| "rfind (x # xs) c =
     (case rfind xs c of
        Some p \<Rightarrow> Some (Suc p)
      | None \<Rightarrow> (if x = c then Some 0 else None))"

text \<open>\<^verbatim>\<open>substr(pos)\<close> is only called with \<open>pos \<le> size\<close>, where it does not throw.\<close>

definition substr :: "string \<Rightarrow> nat \<Rightarrow> string" where
  "substr s pos = drop pos s"

definition replace_char :: "string \<Rightarrow> char \<Rightarrow> char \<Rightarrow> string" where
  "replace_char s old new = map (\<lambda>c. if c = old then new else c) s"

definition resolvePrefix :: "string \<Rightarrow> string" where
  "resolvePrefix inputFilename =
     (let forwardSlashPosition = rfind inputFilename (CHR ''/'');
          backslashPosition = rfind inputFilename (CHR 0x5C);
          prefix =
            (case forwardSlashPosition of
               Some f \<Rightarrow>
                 (case backslashPosition of
                    Some b \<Rightarrow> (let slashPosition = max f b in substr inputFilename (slashPosition + 1))
                  | None \<Rightarrow> substr inputFilename (f + 1))
             | None \<Rightarrow>
                 (case backslashPosition of
                    Some b \<Rightarrow> substr inputFilename (b + 1)
                  | None \<Rightarrow> inputFilename))
      in replace_char prefix (CHR ''.'') (CHR ''_''))"

subsection \<open>The loop over several inputs (lines 272-322)\<close>

text \<open>
  \<open>k\<close> is the position of \<^verbatim>\<open>inputIterator\<close>, which never passes the end, so that
  \<open>k < length inputs\<close> is \<^verbatim>\<open>inputIterator != inputEndIterator\<close>. \<open>dump k inputStream outputStream prefix\<close> is the
  call of \<^verbatim>\<open>parseAndDumpInput\<close> with the arguments that do not change in the loop. The
  third component of the state is \<^verbatim>\<open>std::cerr\<close>.
\<close>

function multiLoop ::
  "world \<Rightarrow> (nat \<Rightarrow> istream \<Rightarrow> ostream \<Rightarrow> string \<Rightarrow> bool \<times> ostream) \<Rightarrow> string list \<Rightarrow> nat \<Rightarrow>
   bool \<Rightarrow> ostream \<Rightarrow> ostream \<Rightarrow> bool \<times> ostream \<times> ostream" where
  "multiLoop w dump inputs k success outputStream cerr =
     (if success \<and> k < length inputs then
        (let inputFilename = inputs ! k;
             inputStream = ifstream_open w inputFilename
         in if \<not> failed inputStream then
              (let prefix = resolvePrefix inputFilename;
                   out1 = outputStream @ [''// Contents of '', inputFilename, '':'', endl];
                   (success', out2) = dump k inputStream out1 prefix
               in multiLoop w dump inputs (k + 1) success' out2 cerr)
            else multiLoop w dump inputs k False outputStream
                   (cerr @ [''*** Could not open input file '', inputs ! 0, endl]))
      else (success, outputStream, cerr))"
  by pat_completeness auto
termination
  by (relation "measure (\<lambda>(w, dump, inputs, k, success, out, err).
                  2 * (length inputs - k) + (if success then 1 else 0))") auto

declare multiLoop.simps [simp del]

subsection \<open>The whole function (lines 169-327)\<close>

text \<open>
  The result is \<open>None\<close> when a banner loop does not end, and otherwise the returned flag, the
  output stream and \<^verbatim>\<open>std::cerr\<close>.
\<close>

definition buildPayloadHelper ::
  "world \<Rightarrow> string list \<Rightarrow> ostream \<Rightarrow> ostream \<Rightarrow> string \<Rightarrow> string \<Rightarrow> bool \<Rightarrow> uint \<Rightarrow> uint \<Rightarrow>
   string \<Rightarrow> string \<Rightarrow> string \<Rightarrow> string \<Rightarrow> string \<Rightarrow> bool \<Rightarrow> (bool \<times> ostream \<times> ostream) option" where
  "buildPayloadHelper w inputs outputStream cerr description copyrightMessage noCopyrightMessage
       indentation width namespaceName variableName variableType sizeVariableName
       sizeVariableType zlibCompress =
     (case banner description copyrightMessage noCopyrightMessage width outputStream of
        None \<Rightarrow> None
      | Some out1 \<Rightarrow>
         (let (out2, leftIndentation) =
                (if namespaceName \<noteq> [] then (out1 @ [''namespace '', namespaceName, ''{'', endl], indentation)
                 else (out1, 0));
              dump = (\<lambda>k inputStream out prefix.
                        parseAndDumpInput (qCompress w) (uninit w k) inputStream out leftIndentation
                          indentation width prefix variableName variableType sizeVariableName
                          sizeVariableType zlibCompress)
          in if inputs = [] then
               (let (success, out3) = dump 0 (stdin w) out2 [] in Some (success, out3, cerr))
             else if length inputs = 1 then
               (let inputStream = ifstream_open w (inputs ! 0)
                in if \<not> failed inputStream then
                     (let (success, out3) = dump 0 inputStream out2 [] in Some (success, out3, cerr))
                   else Some (False, out2, cerr @ [''*** Could not open input file '', inputs ! 0, endl]))
             else Some (multiLoop w dump inputs 0 True out2 cerr)))"

section \<open>buildPayload (lines 361-421)\<close>

text \<open>
  The result holds the returned flag, \<^verbatim>\<open>std::cout\<close>, the contents written to the output
  file (if one was opened) and \<^verbatim>\<open>std::cerr\<close>.
\<close>

definition buildPayload ::
  "world \<Rightarrow> string list \<Rightarrow> string \<Rightarrow> string \<Rightarrow> string \<Rightarrow> bool \<Rightarrow> uint \<Rightarrow> uint \<Rightarrow>
   string \<Rightarrow> string \<Rightarrow> string \<Rightarrow> string \<Rightarrow> string \<Rightarrow> bool \<Rightarrow>
   (bool \<times> ostream \<times> ostream option \<times> ostream) option" where
  "buildPayload w inputs outputFilename description copyrightMessage noCopyrightMessage
       indentation width namespaceName variableName variableType sizeVariableName
       sizeVariableType zlibCompress =
     (if outputFilename = [] then
        map_option (\<lambda>(success, out, err). (success, out, None, err))
          (buildPayloadHelper w inputs [] [] description copyrightMessage noCopyrightMessage
             indentation width namespaceName variableName variableType sizeVariableName
             sizeVariableType zlibCompress)
      else if writable w outputFilename then
        map_option (\<lambda>(success, out, err). (success, [], Some out, err))
          (buildPayloadHelper w inputs [] [] description copyrightMessage noCopyrightMessage
             indentation width namespaceName variableName variableType sizeVariableName
             sizeVariableType zlibCompress)
      else Some (False, [], None, [''*** Could not open output file '', outputFilename, ''.'', endl]))"

section \<open>main (lines 424-627)\<close>

text \<open>
  The local variables of \<^verbatim>\<open>main\<close> that the argument loop updates, and \<^verbatim>\<open>std::cerr\<close>.
\<close>

record main_state =
  m_success :: bool
  m_helpRequested :: bool
  m_description :: string
  m_outputFilename :: string
  m_copyrightMessage :: string
  m_removeCopyright :: bool
  m_indentation :: uint
  m_width :: uint
  m_namespaceName :: string
  m_variableName :: string
  m_variableType :: string
  m_sizeVariableName :: string
  m_sizeVariableType :: string
  m_useZlib :: bool
  m_inputs :: "string list"
  m_cerr :: ostream

definition initial_state :: main_state where
  "initial_state =
     \<lparr>m_success = True,
      m_helpRequested = False,
      m_description = [],
      m_outputFilename = [],
      m_copyrightMessage = ''Copyright 2020 Inesonic, LLC.'' @ [CHR 0x0A] @ ''All rights reserved.'',
      m_removeCopyright = False,
      m_indentation = 4,
      m_width = 120,
      m_namespaceName = [],
      m_variableName = ''declarations'',
      m_variableType = ''static const unsigned char'',
      m_sizeVariableName = ''declarationsSize'',
      m_sizeVariableType = ''static const unsigned long'',
      m_useZlib = True,
      m_inputs = [],
      m_cerr = []\<rparr>"

text \<open>The branch taken by a switch that needs a parameter when none is left.\<close>

definition missing_parameter :: "string \<Rightarrow> main_state \<Rightarrow> main_state" where
  "missing_parameter argument st =
     st\<lparr>m_cerr := m_cerr st @ [''*** The '', argument, '' switch is missing a parameter.'', endl],
        m_success := False\<rparr>"

text \<open>
  The body of the argument loop, without the final \<^verbatim>\<open>++argumentIndex\<close>: the new
  \<open>argumentIndex\<close> and the new state. \<open>strtoul\<close> stands for the C library's
  \<^verbatim>\<open>strtoul(s, nullptr, 10)\<close> converted to \<^verbatim>\<open>unsigned\<close>. Line 482 tests \<open>indentation\<close>, as
  the source does.
\<close>

definition parseArgument ::
  "(string \<Rightarrow> uint) \<Rightarrow> string list \<Rightarrow> nat \<Rightarrow> main_state \<Rightarrow> nat \<times> main_state" where
  "parseArgument strtoul argumentValues argumentIndex st =
     (let argument = argumentValues ! argumentIndex;
          remainingArguments = length argumentValues - argumentIndex - 1
      in if argument = ''-h'' \<or> argument = ''--help'' then
           (argumentIndex, st\<lparr>m_helpRequested := True\<rparr>)
         else if argument = ''-o'' \<or> argument = ''--output'' then
           (if remainingArguments > 0 then
              (argumentIndex + 1, st\<lparr>m_outputFilename := argumentValues ! (argumentIndex + 1)\<rparr>)
            else (argumentIndex, missing_parameter argument st))
         else if argument = ''-c'' \<or> argument = ''--copyright'' then
           (if remainingArguments > 0 then
              (argumentIndex + 1, st\<lparr>m_copyrightMessage := argumentValues ! (argumentIndex + 1)\<rparr>)
            else (argumentIndex, missing_parameter argument st))
         else if argument = ''-C'' \<or> argument = ''--no-copyright'' then
           (argumentIndex, st\<lparr>m_removeCopyright := True\<rparr>)
         else if argument = ''-i'' \<or> argument = ''--indentation'' then
           (if remainingArguments > 0 then
              (let st1 = st\<lparr>m_indentation := strtoul (argumentValues ! (argumentIndex + 1))\<rparr>
               in (argumentIndex + 1,
                   if m_indentation st1 \<le> 0 then
                     st1\<lparr>m_cerr := m_cerr st1 @ [''*** Invalid indentation value '',
                                              argumentValues ! (argumentIndex + 1), endl],
                         m_success := False\<rparr>
                   else st1))
            else (argumentIndex, missing_parameter argument st))
         else if argument = ''-w'' \<or> argument = ''--width'' then
           (if remainingArguments > 0 then
              (let st1 = st\<lparr>m_width := strtoul (argumentValues ! (argumentIndex + 1))\<rparr>
               in (argumentIndex + 1,
                   if m_indentation st1 \<le> 0 then
                     st1\<lparr>m_cerr := m_cerr st1 @ [''*** Invalid width value '',
                                              argumentValues ! (argumentIndex + 1), endl],
                         m_success := False\<rparr>
                   else st1))
            else (argumentIndex, missing_parameter argument st))
         else if argument = ''-n'' \<or> argument = ''--namespace'' then
           (if remainingArguments > 0 then
              (argumentIndex + 1, st\<lparr>m_namespaceName := argumentValues ! (argumentIndex + 1)\<rparr>)
            else (argumentIndex, missing_parameter argument st))
         else if argument = ''-v'' \<or> argument = ''--variable'' then
           (if remainingArguments > 0 then
              (argumentIndex + 1, st\<lparr>m_variableName := argumentValues ! (argumentIndex + 1)\<rparr>)
            else (argumentIndex, missing_parameter argument st))
         else if argument = ''-t'' \<or> argument = ''--type'' then
           (if remainingArguments > 0 then
              (argumentIndex + 1, st\<lparr>m_variableType := argumentValues ! (argumentIndex + 1)\<rparr>)
            else (argumentIndex, missing_parameter argument st))
         else if argument = ''-V'' \<or> argument = ''--size-variable'' then
           (if remainingArguments > 0 then
              (argumentIndex + 1, st\<lparr>m_sizeVariableName := argumentValues ! (argumentIndex + 1)\<rparr>)
            else (argumentIndex, missing_parameter argument st))
         else if argument = ''-T'' \<or> argument = ''--size-type'' then
           (if remainingArguments > 0 then
              (argumentIndex + 1, st\<lparr>m_sizeVariableType := argumentValues ! (argumentIndex + 1)\<rparr>)
            else (argumentIndex, missing_parameter argument st))
         else if argument = ''-z'' \<or> argument = ''--zlib'' then
           (argumentIndex, st\<lparr>m_useZlib := True\<rparr>)
         else if argument = ''-Z'' \<or> argument = ''--no-zlib'' then
           (argumentIndex, st\<lparr>m_useZlib := False\<rparr>)
         else (argumentIndex, st\<lparr>m_inputs := m_inputs st @ [argument]\<rparr>))"

function parseLoop :: "(string \<Rightarrow> uint) \<Rightarrow> string list \<Rightarrow> nat \<Rightarrow> main_state \<Rightarrow> main_state" where
  "parseLoop strtoul argumentValues argumentIndex st =
     (if m_success st \<and> \<not> m_helpRequested st \<and> argumentIndex < length argumentValues then
        parseLoop strtoul argumentValues
          (fst (parseArgument strtoul argumentValues argumentIndex st) + 1)
          (snd (parseArgument strtoul argumentValues argumentIndex st))
      else st)"
  by pat_completeness auto
termination
proof (relation "measure (\<lambda>(strtoul, argv, i, st). length argv - i)")
  show "wf (measure (\<lambda>(strtoul, argv, i, st). length argv - i))" by simp
next
  fix strtoul :: "string \<Rightarrow> uint" and argumentValues :: "string list"
    and argumentIndex :: nat and st :: main_state
  assume "m_success st \<and> \<not> m_helpRequested st \<and> argumentIndex < length argumentValues"
  moreover have "argumentIndex \<le> fst (parseArgument strtoul argumentValues argumentIndex st)"
    by (simp add: parseArgument_def Let_def)
  ultimately show "((strtoul, argumentValues,
          fst (parseArgument strtoul argumentValues argumentIndex st) + 1,
          snd (parseArgument strtoul argumentValues argumentIndex st)),
         (strtoul, argumentValues, argumentIndex, st))
        \<in> measure (\<lambda>(strtoul, argv, i, st). length argv - i)"
    by (simp add: diff_less_mono2)
qed

declare parseLoop.simps [simp del]

text \<open>
  The result of \<^verbatim>\<open>main\<close>: \<open>None\<close> when a banner loop does not end, and otherwise the exit
  status, \<^verbatim>\<open>std::cout\<close>, the contents written to the output file (if one was opened) and
  \<^verbatim>\<open>std::cerr\<close>. The help text that lines 542-607 write to \<^verbatim>\<open>std::cout\<close> is left out.
\<close>

definition main ::
  "(string \<Rightarrow> uint) \<Rightarrow> world \<Rightarrow> string list \<Rightarrow> (int \<times> ostream \<times> ostream option \<times> ostream) option" where
  "main strtoul w argumentValues =
     (let st = parseLoop strtoul argumentValues 1 initial_state
      in if m_helpRequested st then
           Some (if m_success st then 0 else 1, [], None, m_cerr st)
         else if m_success st then
           map_option
             (\<lambda>(success, cout, file, cerr). (if success then 0 else 1, cout, file, m_cerr st @ cerr))
             (buildPayload w (m_inputs st) (m_outputFilename st) (m_description st)
                (m_copyrightMessage st) (m_removeCopyright st) (m_indentation st) (m_width st)
                (m_namespaceName st) (m_variableName st) (m_variableType st)
                (m_sizeVariableName st) (m_sizeVariableType st) (m_useZlib st))
         else Some (1, [], None, m_cerr st))"

section \<open>Observations on the output\<close>

text \<open>
  The items that the loop of lines 106-125 inserts for the byte sequence \<open>outputData\<close>,
  with the layout of lines 96-99 and 106-107.
\<close>

definition arrayBody :: "uint \<Rightarrow> uint \<Rightarrow> uint \<Rightarrow> byte list \<Rightarrow> ostream" where
  "arrayBody leftIndentation indentation width outputData =
     dumpLoop (contentsIndentationString leftIndentation indentation)
       (valuesPerLine width indentation leftIndentation) outputData (length outputData) 0
       (valuesPerLine width indentation leftIndentation) []"

text \<open>A hex token is an inserted item that starts with \<^verbatim>\<open>0x\<close>; a separator is the item \<^verbatim>\<open>", "\<close>.\<close>

definition is_token :: "string \<Rightarrow> bool" where
  "is_token c = (take 2 c = ''0x'')"

definition is_separator :: "string \<Rightarrow> bool" where
  "is_separator c = (c = '', '')"

text \<open>The items \<open>xs\<close> with \<open>s\<close> between each two neighbours, and nowhere else.\<close>

fun separated :: "'a \<Rightarrow> 'a list \<Rightarrow> 'a list" where
  "separated s [] = []"
| "separated s [x] = [x]"
| "separated s (x # y # ys) = x # s # separated s (y # ys)"

text \<open>Reading a token back: \<^verbatim>\<open>0x\<close>, then exactly two digits out of \<^verbatim>\<open>0-9A-F\<close>.\<close>

definition upper_hex_value :: "char \<Rightarrow> nat option" where
  "upper_hex_value c =
     (let k = (of_char c :: nat)
      in if 48 \<le> k \<and> k \<le> 57 then Some (k - 48)
         else if 65 \<le> k \<and> k \<le> 70 then Some (k - 55)
         else None)"

definition decode_token :: "string \<Rightarrow> nat option" where
  "decode_token t =
     (case t of
        [z, x, h, l] \<Rightarrow>
          (if z = CHR ''0'' \<and> x = CHR ''x'' then
             (case upper_hex_value h of
                None \<Rightarrow> None
              | Some a \<Rightarrow> (case upper_hex_value l of None \<Rightarrow> None | Some b \<Rightarrow> Some (16 * a + b)))
           else None)
      | _ \<Rightarrow> None)"

text \<open>
  The number of tokens on each line of a sequence of inserted items: a line ends at each
  \<^verbatim>\<open>std::endl\<close>. The first entry counts the tokens before the first \<^verbatim>\<open>std::endl\<close>.
\<close>

fun line_counts :: "ostream \<Rightarrow> nat list" where
  "line_counts [] = [0]"
| "line_counts (c # cs) =
     (if c = endl then 0 # line_counts cs
      else if is_token c then Suc (hd (line_counts cs)) # tl (line_counts cs)
      else line_counts cs)"

text \<open>\<open>m\<close> tokens in lines of \<open>V\<close>: full lines, then the remainder if there is one.\<close>

definition full_lines :: "nat \<Rightarrow> nat \<Rightarrow> nat list" where
  "full_lines V m = replicate (m div V) V @ (if m mod V = 0 then [] else [m mod V])"

text \<open>The two path separators that lines 279-280 look for.\<close>

definition is_sep :: "char \<Rightarrow> bool" where
  "is_sep c = (c = CHR ''/'' \<or> c = CHR 0x5C)"

text \<open>The lines of a text: the pieces between newline characters.\<close>

fun lines_of :: "string \<Rightarrow> string list" where
  "lines_of [] = [[]]"
| "lines_of (c # cs) =
     (if c = CHR 0x0A then [] # lines_of cs
      else (c # hd (lines_of cs)) # tl (lines_of cs))"

text \<open>The comment line that precedes the block of one of several inputs (line 300).\<close>

definition contents_comment :: "string \<Rightarrow> string" where
  "contents_comment inputFilename = ''// Contents of '' @ inputFilename @ '':''"

text \<open>
  The lines that may follow the opening scope line, for the left margin \<open>n\<close> and the margin
  \<open>c\<close> of the content lines: a blank line; the closing line, which is \<open>n\<close> spaces and
  \<^verbatim>\<open>};\<close>; the declaration header, which is \<open>n\<close> spaces, then the variable type and a
  space; the size declaration, which is \<open>n\<close> spaces, then the size type and a space; a
  content line, which is \<open>c\<close> spaces and then a hex token; or, with more than one input, the
  comment line of an input.
\<close>

definition payload_line :: "nat \<Rightarrow> nat \<Rightarrow> string \<Rightarrow> string \<Rightarrow> string list \<Rightarrow> string \<Rightarrow> bool" where
  "payload_line n c variableType sizeVariableType inputs l =
     (l = []
      \<or> l = spaces n @ ''};''
      \<or> take (n + length variableType + 1) l = spaces n @ variableType @ '' ''
      \<or> take (n + length sizeVariableType + 1) l = spaces n @ sizeVariableType @ '' ''
      \<or> take (c + 2) l = spaces c @ ''0x''
      \<or> (1 < length inputs \<and> l \<in> contents_comment ` set inputs))"

section \<open>An example environment\<close>

text \<open>
  The environment of the concrete runs below: every path can be opened and holds an empty
  file, except \<^verbatim>\<open>missing.bin\<close>, which cannot be opened. The runs disable compression, so
  the compressor is never called.
\<close>

definition example_world :: world where
  "example_world =
     \<lparr>files = (\<lambda>p. if p = ''missing.bin'' then None else Some []),
      stdin = \<lparr>pending = [], failed = False\<rparr>,
      writable = (\<lambda>p. True),
      qCompress = (\<lambda>bytes level. bytes),
      uninit = (\<lambda>k. 0)\<rparr>"

section \<open>The array body: tokens, separators and lines\<close>

lemma dumpLoop_done: "\<not> i < n \<Longrightarrow> dumpLoop cis vpl d n i vtl out = out"
  by (simp add: dumpLoop.simps)

lemma dumpLoop_unfold:
  "i < n \<Longrightarrow> dumpLoop cis vpl d n i vtl out =
     dumpLoop cis vpl d n (i + 1) (if vtl \<ge> vpl then 1 else vtl + 1)
       (out @ (if vtl \<ge> vpl then [endl, cis] else []) @ [hexByte (d ! i)] @
        (if i < n - 1 then ['', ''] else []))"
  by (subst dumpLoop.simps) (simp add: Let_def)

lemma dumpLoop_acc:
  "dumpLoop cis vpl d n i vtl out = out @ dumpLoop cis vpl d n i vtl []"
proof (induction "n - i" arbitrary: i vtl out)
  case 0
  then show ?case by (simp add: dumpLoop_done)
next
  case (Suc m)
  then have lt: "i < n" and m: "m = n - (i + 1)" by auto
  show ?case
    unfolding dumpLoop_unfold [OF lt, of _ _ _ _ out] dumpLoop_unfold [OF lt, of _ _ _ _ "[]"]
    by (subst Suc.hyps(1) [OF m], subst (2) Suc.hyps(1) [OF m]) simp
qed

lemma dumpLoop_step:
  "i < n \<Longrightarrow> dumpLoop cis vpl d n i vtl [] =
     (if vtl \<ge> vpl then [endl, cis] else []) @ [hexByte (d ! i)] @
     (if i < n - 1 then ['', ''] else []) @
     dumpLoop cis vpl d n (i + 1) (if vtl \<ge> vpl then 1 else vtl + 1) []"
  by (subst dumpLoop_unfold, assumption, subst dumpLoop_acc) simp

lemma spaces_replicate: "spaces n = replicate n (CHR '' '')"
  by (induction n) (simp_all add: replicate_append_same)

lemma not_token_spaces [simp]: "\<not> is_token (spaces k)"
  by (cases k; cases "k - 1") (auto simp: is_token_def spaces_replicate)

lemma token_facts [simp]: "\<not> is_token endl" "\<not> is_token '', ''" "is_token (hexByte v)"
  by (simp_all add: is_token_def endl_def hexByte_def)

lemma tokens_dumpLoop:
  "n = length d \<Longrightarrow> filter is_token (dumpLoop (spaces k) vpl d n i vtl []) = map hexByte (drop i d)"
proof (induction "n - i" arbitrary: i vtl)
  case 0
  then show ?case by (simp add: dumpLoop_done)
next
  case (Suc m)
  then have lt: "i < n" and m: "m = n - (i + 1)" by auto
  have dr: "drop i d = d ! i # drop (i + 1) d"
    using lt Suc.prems by (simp add: Cons_nth_drop_Suc)
  show ?case
    using Suc.hyps(1)[OF m Suc.prems] lt
    by (simp add: dumpLoop_step dr)
qed


lemma spaces_not_endl [simp]: "spaces k \<noteq> endl"
  by (cases k; cases "k - 1") (auto simp: endl_def spaces_replicate)

lemma endl_facts [simp]: "hexByte v \<noteq> endl" "'', '' \<noteq> endl"
  by (simp_all add: endl_def hexByte_def)

lemma full_lines_step:
  assumes "1 \<le> V"
  shows "Suc (min m (V - 1)) # full_lines V (m - min m (V - 1)) = full_lines V (Suc m)"
proof (cases "V \<le> Suc m")
  case True
  then obtain x where x: "Suc m = x + V" by (metis le_add_diff_inverse2)
  with assms have mn: "min m (V - 1) = V - 1" "m - (V - 1) = x" by auto
  from assms have "0 < V" by simp
  then have "(x + V) div V = Suc (x div V)" "(x + V) mod V = x mod V"
    by (simp_all add: div_add_self2)
  then have "full_lines V (x + V) = V # full_lines V x"
    by (simp add: full_lines_def)
  with mn assms x show ?thesis by simp
next
  case False
  then have "min m (V - 1) = m" "Suc m div V = 0" "Suc m mod V = Suc m" by auto
  then show ?thesis by (simp add: full_lines_def)
qed


lemma unat_inc_below: "(x::uint) < y \<Longrightarrow> unat (x + 1) = unat x + 1"
  by (metis (no_types, lifting) add.commute add_0 inc_i inc_le
    unat_plus_simple unsigned_0 unsigned_1 word_gt_0)

lemma line_counts_dumpLoop:
  assumes "1 \<le> unat vpl"
  shows "line_counts (dumpLoop (spaces k) vpl d n i vtl []) =
           min (n - i) (unat vpl - unat vtl) #
           full_lines (unat vpl) (n - i - min (n - i) (unat vpl - unat vtl))"
proof (induction "n - i" arbitrary: i vtl)
  case 0
  then show ?case by (simp add: dumpLoop_done full_lines_def)
next
  case (Suc m)
  then have lt: "i < n" and m: "m = n - (i + 1)" and sm: "n - i = Suc m" by auto
  show ?case
  proof (cases "vpl \<le> vtl")
    case True
    then have z: "unat vpl - unat vtl = 0" by (simp add: word_le_nat_alt)
    have "line_counts (dumpLoop (spaces k) vpl d n i vtl []) =
            0 # Suc (min m (unat vpl - 1)) # full_lines (unat vpl) (m - min m (unat vpl - 1))"
      unfolding dumpLoop_step [OF lt]
      using True Suc.hyps(1) [OF m, of 1] m by simp
    then show ?thesis
      using full_lines_step [OF assms, of m] z sm by simp
  next
    case False
    then have lt2: "vtl < vpl" by simp
    then have u: "unat (vtl + 1) = unat vtl + 1" by (rule unat_inc_below)
    from lt2 have c: "unat vtl < unat vpl" by (simp add: word_less_nat_alt)
    have "line_counts (dumpLoop (spaces k) vpl d n i vtl []) =
            Suc (min m (unat vpl - (unat vtl + 1))) #
            full_lines (unat vpl) (m - min m (unat vpl - (unat vtl + 1)))"
      unfolding dumpLoop_step [OF lt]
      using False Suc.hyps(1) [OF m, of "vtl + 1"] m u by simp
    moreover have "Suc (min m (unat vpl - (unat vtl + 1))) = min (Suc m) (unat vpl - unat vtl)"
      using c by auto
    moreover have "m - min m (unat vpl - (unat vtl + 1)) = Suc m - min (Suc m) (unat vpl - unat vtl)"
      using c by auto
    ultimately show ?thesis using sm by simp
  qed
qed

lemma line_counts_dumpLoop_zero:
  assumes "vpl = 0"
  shows "line_counts (dumpLoop (spaces k) vpl d n i vtl []) = 0 # replicate (n - i) 1"
proof (induction "n - i" arbitrary: i vtl)
  case 0
  then show ?case by (simp add: dumpLoop_done)
next
  case (Suc m)
  then have lt: "i < n" and m: "m = n - (i + 1)" and sm: "n - i = Suc m" by auto
  show ?case
    unfolding dumpLoop_step [OF lt]
    using Suc.hyps(1) [OF m, of 1] m sm assms by simp
qed


lemma sep_facts [simp]:
  "\<not> is_separator (spaces k)" "\<not> is_separator endl" "\<not> is_separator (hexByte v)" "is_separator '', ''"
  by (cases k; cases "k - 1"; simp add: is_separator_def spaces_replicate endl_def hexByte_def)+

lemma separated_Cons: "separated s (x # xs) = x # (if xs = [] then [] else s # separated s xs)"
  by (cases xs) simp_all

lemma items_dumpLoop:
  "n = length d \<Longrightarrow>
   filter (\<lambda>c. is_token c \<or> is_separator c) (dumpLoop (spaces k) vpl d n i vtl []) =
     separated '', '' (map hexByte (drop i d))"
proof (induction "n - i" arbitrary: i vtl)
  case 0
  then show ?case by (simp add: dumpLoop_done)
next
  case (Suc m)
  then have lt: "i < n" and m: "m = n - (i + 1)" by auto
  have dr: "drop i d = d ! i # drop (i + 1) d"
    using lt Suc.prems by (simp add: Cons_nth_drop_Suc)
  have e: "(drop (i + 1) d = []) = (\<not> i < n - 1)"
    using lt Suc.prems by auto
  show ?case
    unfolding dumpLoop_step [OF lt] dr
    using Suc.hyps(1) [OF m Suc.prems] e by (simp add: separated_Cons)
qed

lemma last_dumpLoop:
  "i < n \<Longrightarrow> last (dumpLoop cis vpl d n i vtl []) = hexByte (d ! (n - 1))"
proof (induction "n - i" arbitrary: i vtl)
  case 0
  then show ?case by simp
next
  case (Suc m)
  then have lt: "i < n" and m: "m = n - (i + 1)" by auto
  show ?case
  proof (cases "i < n - 1")
    case True
    then have "i + 1 < n" by simp
    from Suc.hyps(1) [OF m this] have "dumpLoop cis vpl d n (i + 1) (if vpl \<le> vtl then 1 else vtl + 1) [] \<noteq> []
       \<and> last (dumpLoop cis vpl d n (i + 1) (if vpl \<le> vtl then 1 else vtl + 1) []) = hexByte (d ! (n - 1))"
      using \<open>i + 1 < n\<close> by (subst dumpLoop_step) simp_all
    then show ?thesis unfolding dumpLoop_step [OF lt] by simp
  next
    case False
    with lt have "i = n - 1" "\<not> i + 1 < n" by auto
    then show ?thesis unfolding dumpLoop_step [OF lt] by (simp add: dumpLoop_done)
  qed
qed

lemma hex_digits_all: "list_all (\<lambda>n. upper_hex_value (hex_digit n) = Some n) [0..<16]"
  by code_simp

lemma upper_hex_value_hex_digit: "n < 16 \<Longrightarrow> upper_hex_value (hex_digit n) = Some n"
  using hex_digits_all by (simp add: list_all_iff)

lemma decode_hexByte: "decode_token (hexByte v) = Some (unat v)"
proof -
  have "unat v < 256" using unsigned_less [of v] by simp
  then have "unat v div 16 < 16" by simp
  moreover have "unat v mod 16 < 16" by simp
  ultimately show ?thesis
    by (simp add: decode_token_def hexByte_def upper_hex_value_hex_digit)
qed

lemma seps_separated:
  "length (filter is_separator (separated '', '' (map hexByte xs))) = length xs - 1"
  by (induction xs) (auto simp: separated_Cons)

lemma filter_sep_items:
  "filter is_separator (filter (\<lambda>c. is_token c \<or> is_separator c) out) = filter is_separator out"
  by (induction out) auto

text \<open>
  The output of \<^verbatim>\<open>parseAndDumpInput\<close>: the header items, the array body of the bytes that
  are formatted (the buffer of the read loop, or what \<^verbatim>\<open>qCompress\<close> makes of it at level 9),
  and the closing items.
\<close>

lemma parseAndDumpInput_items:
  "snd (parseAndDumpInput qc u s out left ind width prefix vn vt svn svt z) =
     (let outputData = (if z then qc (readLoop u s []) 9 else readLoop u s []);
          lis = leftIndentationString left;
          n = decimal (length outputData)
      in out @ [lis, vt, '' '', prefix, vn, ''['', n, ''] = {''] @
         arrayBody left ind width outputData @
         [endl, lis, ''};'', endl, endl, lis, svt, '' '', prefix, svn, '' = '', n, '';'', endl, endl])"
  by (simp add: parseAndDumpInput_def Let_def arrayBody_def dumpLoop_acc [of _ _ _ _ _ _ "_ @ _"])

lemma arrayBody_empty: "arrayBody left ind width [] = []"
  by (simp add: arrayBody_def dumpLoop_done)

lemma arrayBody_tokens:
  "filter is_token (arrayBody leftIndentation indentation width B) = map hexByte B"
  using tokens_dumpLoop [of "length B" B _ _ 0]
  by (simp add: arrayBody_def contentsIndentationString_def)

lemma arrayBody_items:
  "filter (\<lambda>c. is_token c \<or> is_separator c) (arrayBody leftIndentation indentation width B) =
     separated '', '' (map hexByte B)"
  using items_dumpLoop [of "length B" B _ _ 0]
  by (simp add: arrayBody_def contentsIndentationString_def)

lemma arrayBody_separators:
  "length (filter is_separator (arrayBody leftIndentation indentation width B)) = length B - 1"
  using arg_cong [OF arrayBody_items, of "\<lambda>xs. length (filter is_separator xs)" leftIndentation indentation width B]
  by (simp only: filter_sep_items seps_separated)

lemma arrayBody_last:
  "B \<noteq> [] \<Longrightarrow> last (arrayBody leftIndentation indentation width B) = hexByte (last B)"
  using last_dumpLoop [of 0 "length B"]
  by (simp add: arrayBody_def last_conv_nth)

text \<open>
  Claim C2. For every byte sequence \<open>B\<close> and every layout, the hex tokens that the array
  formatter emits are the two-digit uppercase hexadecimal encodings of the bytes of \<open>B\<close>, in
  order: there are \<open>length B\<close> tokens, reading each token back gives the byte, and the tokens
  and separators together are the tokens with one \<^verbatim>\<open>", "\<close> between each two neighbours.
  So a non-empty \<open>B\<close> has \<open>length B - 1\<close> separators and ends with a token; an empty \<open>B\<close> has
  neither tokens nor separators.
\<close>

theorem C2_tokens:
  "map decode_token (filter is_token (arrayBody leftIndentation indentation width B)) =
     map (\<lambda>b. Some (unat b)) B
   \<and> filter is_token (arrayBody leftIndentation indentation width B) = map hexByte B
   \<and> filter (\<lambda>c. is_token c \<or> is_separator c) (arrayBody leftIndentation indentation width B) =
       separated '', '' (map hexByte B)
   \<and> length (filter is_token (arrayBody leftIndentation indentation width B)) = length B
   \<and> (B = [] \<longrightarrow> filter is_separator (arrayBody leftIndentation indentation width B) = [])
   \<and> (B \<noteq> [] \<longrightarrow>
        Suc (length (filter is_separator (arrayBody leftIndentation indentation width B))) = length B
        \<and> last (arrayBody leftIndentation indentation width B) = hexByte (last B))"
proof (intro conjI impI)
  show "map decode_token (filter is_token (arrayBody leftIndentation indentation width B)) =
          map (\<lambda>b. Some (unat b)) B"
    by (simp add: arrayBody_tokens decode_hexByte)
  show "filter is_token (arrayBody leftIndentation indentation width B) = map hexByte B"
    by (rule arrayBody_tokens)
  show "filter (\<lambda>c. is_token c \<or> is_separator c) (arrayBody leftIndentation indentation width B) =
          separated '', '' (map hexByte B)"
    by (rule arrayBody_items)
  show "length (filter is_token (arrayBody leftIndentation indentation width B)) = length B"
    by (simp add: arrayBody_tokens)
  show "filter is_separator (arrayBody leftIndentation indentation width B) = []" if "B = []"
    using arrayBody_separators [of leftIndentation indentation width B] that by simp
  show "Suc (length (filter is_separator (arrayBody leftIndentation indentation width B))) = length B"
    if "B \<noteq> []"
    using arrayBody_separators [of leftIndentation indentation width B] that
    by (cases B) simp_all
  show "last (arrayBody leftIndentation indentation width B) = hexByte (last B)" if "B \<noteq> []"
    using that by (rule arrayBody_last)
qed

text \<open>The theorem at two bytes and at the empty sequence, width 120 and indentation 4.\<close>

theorem C2_tokens_witness:
  "[0xDE, 0xAD :: byte] \<noteq> []
   \<and> filter is_token (arrayBody 0 4 120 [0xDE, 0xAD]) = [''0xDE'', ''0xAD'']
   \<and> Suc (length (filter is_separator (arrayBody 0 4 120 [0xDE, 0xAD]))) = 2
   \<and> last (arrayBody 0 4 120 [0xDE, 0xAD]) = ''0xAD''
   \<and> filter is_separator (arrayBody 0 4 120 []) = []"
  using C2_tokens [of 0 4 120 "[0xDE, 0xAD]"] C2_tokens [of 0 4 120 "[]"]
  by (simp add: hexByte_def hex_digit_def)

text \<open>
  Claim C5 as stated fails. With width 5 and indentation 4 the value of \<open>valuesPerLine\<close> is 0,
  and each of the two wrapped lines carries one token, not 0. With width 0 and indentation 4
  the subtraction wraps around, and \<open>valuesPerLine\<close> is not the floor of \<open>(0 - 4 - 0 + 1) / 6\<close>.
\<close>

theorem C5_counterexample:
  "valuesPerLine 5 4 0 = 0
   \<and> tl (line_counts (arrayBody 0 4 5 [0x01, 0x02])) = [1, 1]
   \<and> hd (tl (line_counts (arrayBody 0 4 5 [0x01, 0x02]))) \<noteq> unat (valuesPerLine 5 4 0)
   \<and> int (unat (valuesPerLine 0 4 0)) \<noteq> (0 - 4 - 0 + 1) div 6"
  by (simp add: valuesPerLine_def arrayBody_def dumpLoop.simps contentsIndentationString_def)

lemma valuesPerLine_uint:
  "uint (valuesPerLine width indentation leftIndentation) =
     ((uint width - uint indentation - uint leftIndentation + 1) mod 2 ^ 32) div 6"
proof -
  have "uint (width - indentation - leftIndentation + 1) =
          (uint width - uint indentation - uint leftIndentation + 1) mod 2 ^ 32"
    by (simp add: uint_word_ariths mod_simps)
  then show ?thesis
    by (simp add: valuesPerLine_def uint_div)
qed

lemma arrayBody_line_counts:
  "1 \<le> unat (valuesPerLine width indentation leftIndentation) \<Longrightarrow>
   line_counts (arrayBody leftIndentation indentation width B) =
     0 # full_lines (unat (valuesPerLine width indentation leftIndentation)) (length B)"
  using line_counts_dumpLoop [of "valuesPerLine width indentation leftIndentation" _ B "length B" 0
      "valuesPerLine width indentation leftIndentation"]
  by (simp add: arrayBody_def contentsIndentationString_def)

lemma arrayBody_line_counts_zero:
  "valuesPerLine width indentation leftIndentation = 0 \<Longrightarrow>
   line_counts (arrayBody leftIndentation indentation width B) = 0 # replicate (length B) 1"
  using line_counts_dumpLoop_zero [of "valuesPerLine width indentation leftIndentation" _ B "length B" 0]
  by (simp add: arrayBody_def contentsIndentationString_def)

text \<open>
  Claim C5, amended. \<open>valuesPerLine\<close> is computed in 32-bit unsigned arithmetic: it is the
  floor of \<open>((maxWidth - indentation - leftIndentation + 1) mod 2^32) / 6\<close>. No token precedes
  the first line break. When \<open>valuesPerLine\<close> is at least 1, every wrapped line carries
  \<open>valuesPerLine\<close> tokens, except that the final line carries \<open>length B mod valuesPerLine\<close>
  tokens when that remainder is not 0. When \<open>valuesPerLine\<close> is 0, every wrapped line carries
  exactly one token.
\<close>

theorem C5_lines:
  "uint (valuesPerLine width indentation leftIndentation) =
     ((uint width - uint indentation - uint leftIndentation + 1) mod 2 ^ 32) div 6
   \<and> hd (line_counts (arrayBody leftIndentation indentation width B)) = 0
   \<and> (1 \<le> unat (valuesPerLine width indentation leftIndentation) \<longrightarrow>
        tl (line_counts (arrayBody leftIndentation indentation width B)) =
          full_lines (unat (valuesPerLine width indentation leftIndentation)) (length B))
   \<and> (unat (valuesPerLine width indentation leftIndentation) = 0 \<longrightarrow>
        tl (line_counts (arrayBody leftIndentation indentation width B)) = replicate (length B) 1)"
proof (intro conjI impI)
  show "uint (valuesPerLine width indentation leftIndentation) =
          ((uint width - uint indentation - uint leftIndentation + 1) mod 2 ^ 32) div 6"
    by (rule valuesPerLine_uint)
  show "hd (line_counts (arrayBody leftIndentation indentation width B)) = 0"
  proof (cases "valuesPerLine width indentation leftIndentation = 0")
    case True
    then show ?thesis by (simp add: arrayBody_line_counts_zero)
  next
    case False
    then have "1 \<le> unat (valuesPerLine width indentation leftIndentation)"
      by (simp add: unat_gt_0 Suc_le_eq)
    then show ?thesis by (simp add: arrayBody_line_counts)
  qed
  show "tl (line_counts (arrayBody leftIndentation indentation width B)) =
          full_lines (unat (valuesPerLine width indentation leftIndentation)) (length B)"
    if "1 \<le> unat (valuesPerLine width indentation leftIndentation)"
    using that by (simp add: arrayBody_line_counts)
  show "tl (line_counts (arrayBody leftIndentation indentation width B)) = replicate (length B) 1"
    if "unat (valuesPerLine width indentation leftIndentation) = 0"
  proof -
    from that have "valuesPerLine width indentation leftIndentation = 0"
      by (simp add: unat_eq_0)
    then show ?thesis by (simp add: arrayBody_line_counts_zero)
  qed
qed

text \<open>Five bytes in lines of two (width 16), and three bytes with \<open>valuesPerLine = 0\<close>.\<close>

theorem C5_lines_witness:
  "1 \<le> unat (valuesPerLine 16 4 0)
   \<and> tl (line_counts (arrayBody 0 4 16 [1, 2, 3, 4, 5])) = [2, 2, 1]
   \<and> unat (valuesPerLine 5 4 0) = 0
   \<and> tl (line_counts (arrayBody 0 4 5 [1, 2, 3])) = [1, 1, 1]"
  using C5_lines [of 16 4 0 "[1, 2, 3, 4, 5]"] C5_lines [of 5 4 0 "[1, 2, 3]"]
  by (simp add: valuesPerLine_def full_lines_def)

section \<open>The variable name prefix\<close>

lemma rfind_None: "(rfind s c = None) = (c \<notin> set s)"
  by (induction s) (auto split: option.splits)

lemma rfind_Some:
  "rfind s c = Some p \<Longrightarrow> p < length s \<and> s ! p = c \<and> c \<notin> set (drop (Suc p) s)"
proof (induction s arbitrary: p)
  case Nil
  then show ?case by simp
next
  case (Cons x xs)
  show ?case
  proof (cases "rfind xs c")
    case None
    with Cons.prems have "x = c" "p = 0" by (auto split: if_splits)
    with None show ?thesis by (simp add: rfind_None)
  next
    case (Some q)
    with Cons.prems have "p = Suc q" by simp
    with Cons.IH [OF Some] show ?thesis by simp
  qed
qed

lemma basename_split:
  assumes "p < length s" "is_sep (s ! p)" "\<forall>c \<in> set (drop (Suc p) s). \<not> is_sep c"
  shows "rev (takeWhile (\<lambda>c. \<not> is_sep c) (rev s)) = drop (Suc p) s"
proof -
  have s: "s = take p s @ s ! p # drop (Suc p) s"
    using assms(1) by (simp add: id_take_nth_drop)
  have "rev s = rev (drop (Suc p) s) @ s ! p # rev (take p s)"
    by (subst s) simp
  then have "takeWhile (\<lambda>c. \<not> is_sep c) (rev s) = rev (drop (Suc p) s)"
    using assms(2,3) by (simp add: takeWhile_tail)
  then show ?thesis by simp
qed

lemma takeWhile_rev_all:
  assumes "\<forall>c \<in> set (rev s). P c"
  shows "rev (takeWhile P (rev s)) = s"
proof -
  from assms have "takeWhile P (rev s) = rev s"
    by (intro takeWhile_eq_all_conv [THEN iffD2]) simp
  then show ?thesis by (simp only: rev_rev_ident)
qed

lemma drop_subset: "p \<le> q \<Longrightarrow> set (drop q s) \<subseteq> set (drop p s)"
  by (metis set_drop_subset_set_drop)

lemma resolvePrefix_basename:
  "resolvePrefix path =
     map (\<lambda>c. if c = CHR ''.'' then CHR ''_'' else c)
       (rev (takeWhile (\<lambda>c. c \<noteq> CHR ''/'' \<and> c \<noteq> CHR 0x5C) (rev path)))"
proof -
  have P: "(\<lambda>c. c \<noteq> CHR ''/'' \<and> c \<noteq> CHR 0x5C) = (\<lambda>c. \<not> is_sep c)"
    by (simp add: is_sep_def)
  show ?thesis
  proof (cases "rfind path (CHR ''/'')")
    case None
    note nf = this
    show ?thesis
    proof (cases "rfind path (CHR 0x5C)")
      case None
      with nf have "\<forall>c \<in> set (rev path). \<not> is_sep c"
        by (auto simp: rfind_None is_sep_def)
      then have tw: "rev (takeWhile (\<lambda>c. \<not> is_sep c) (rev path)) = path"
        by (rule takeWhile_rev_all)
      show ?thesis
        unfolding P tw using nf None by (simp add: resolvePrefix_def replace_char_def)
    next
      case (Some b)
      from rfind_Some [OF Some] nf
      have "b < length path" "is_sep (path ! b)" "\<forall>c \<in> set (drop (Suc b) path). \<not> is_sep c"
        using set_drop_subset [of "Suc b" path] by (auto simp: rfind_None is_sep_def)
      from basename_split [OF this] nf Some show ?thesis
        by (simp add: resolvePrefix_def replace_char_def substr_def P)
    qed
  next
    case (Some f)
    note sf = this
    show ?thesis
    proof (cases "rfind path (CHR 0x5C)")
      case None
      from rfind_Some [OF sf] None
      have "f < length path" "is_sep (path ! f)" "\<forall>c \<in> set (drop (Suc f) path). \<not> is_sep c"
        using set_drop_subset [of "Suc f" path] by (auto simp: rfind_None is_sep_def)
      from basename_split [OF this] sf None show ?thesis
        by (simp add: resolvePrefix_def replace_char_def substr_def P)
    next
      case (Some b)
      let ?m = "max f b"
      from rfind_Some [OF sf] rfind_Some [OF Some]
      have 1: "?m < length path" and 2: "is_sep (path ! ?m)"
        by (auto simp: is_sep_def max_def)
      have "set (drop (Suc ?m) path) \<subseteq> set (drop (Suc f) path)"
           "set (drop (Suc ?m) path) \<subseteq> set (drop (Suc b) path)"
        by (rule drop_subset, simp)+
      with rfind_Some [OF sf] rfind_Some [OF Some]
      have 3: "\<forall>c \<in> set (drop (Suc ?m) path). \<not> is_sep c"
        by (auto simp: is_sep_def)
      from basename_split [OF 1 2 3] sf Some show ?thesis
        by (simp add: resolvePrefix_def replace_char_def substr_def P Let_def)
    qed
  qed
qed

text \<open>
  Claim C6. The prefix computed from a path is its part after the last \<^verbatim>\<open>/\<close> or backslash,
  whichever comes later (the longest suffix without either character), with every \<^verbatim>\<open>.\<close>
  replaced by \<^verbatim>\<open>_\<close>. The four paths of the specification and two mixed paths are evaluated.
\<close>

theorem C6_resolvePrefix:
  "resolvePrefix path =
     map (\<lambda>c. if c = CHR ''.'' then CHR ''_'' else c)
       (rev (takeWhile (\<lambda>c. c \<noteq> CHR ''/'' \<and> c \<noteq> CHR 0x5C) (rev path)))
   \<and> resolvePrefix ''a/b/c.bin'' = ''c_bin''
   \<and> resolvePrefix (''a'' @ [CHR 0x5C] @ ''b'' @ [CHR 0x5C] @ ''c.bin'') = ''c_bin''
   \<and> resolvePrefix ''x.y.bin'' = ''x_y_bin''
   \<and> resolvePrefix ''nameonly'' = ''nameonly''
   \<and> resolvePrefix (''a/b'' @ [CHR 0x5C] @ ''c.bin'') = ''c_bin''
   \<and> resolvePrefix (''a'' @ [CHR 0x5C] @ ''b/c.bin'') = ''c_bin''"
proof -
  have "resolvePrefix ''a/b/c.bin'' = ''c_bin''"
    by (simp add: resolvePrefix_def substr_def replace_char_def)
  moreover have "resolvePrefix (''a'' @ [CHR 0x5C] @ ''b'' @ [CHR 0x5C] @ ''c.bin'') = ''c_bin''"
    by (simp add: resolvePrefix_def substr_def replace_char_def)
  moreover have "resolvePrefix ''x.y.bin'' = ''x_y_bin''"
    by (simp add: resolvePrefix_def substr_def replace_char_def)
  moreover have "resolvePrefix ''nameonly'' = ''nameonly''"
    by (simp add: resolvePrefix_def substr_def replace_char_def)
  moreover have "resolvePrefix (''a/b'' @ [CHR 0x5C] @ ''c.bin'') = ''c_bin''"
    by (simp add: resolvePrefix_def substr_def replace_char_def)
  moreover have "resolvePrefix (''a'' @ [CHR 0x5C] @ ''b/c.bin'') = ''c_bin''"
    by (simp add: resolvePrefix_def substr_def replace_char_def)
  ultimately show ?thesis
    using resolvePrefix_basename [of path] by simp
qed

section \<open>The read loop and the two end-to-end scenarios\<close>

lemma readLoop_failed: "failed s \<Longrightarrow> readLoop u s buf = buf"
  by (simp add: readLoop.simps)

lemma readLoop_good:
  "readLoop u \<lparr>pending = bs, failed = False\<rparr> buf = buf @ bs @ [u]"
proof (induction bs arbitrary: buf)
  case Nil
  show ?case
    by (subst readLoop.simps) (simp add: istream_read_def readLoop_failed)
next
  case (Cons b bs)
  show ?case
    by (subst readLoop.simps) (simp add: istream_read_def Cons.IH)
qed

lemma decimal_small: "n < 10 \<Longrightarrow> decimal n = [digit_char n]"
  by (simp add: decimal.simps)

lemma spaces_4: "spaces 4 = ''    ''"
  by (simp add: eval_nat_numeral)

lemma vpl_default: "valuesPerLine 120 4 0 = 19"
  by (simp add: valuesPerLine_def)

lemma dumpLoop_five_bytes: "dumpLoop cis 19 [0xDE, 0xAD, 0xBE, 0xEF, u] (Suc (Suc (Suc (Suc (Suc 0))))) 0 19 out =
   out @ [endl, cis, hexByte 0xDE, '', '', hexByte 0xAD, '', '', hexByte 0xBE, '', '', hexByte 0xEF, '', '', hexByte u]"
  by (simp add: dumpLoop_unfold dumpLoop_done word_le_nat_alt)

lemma hexByte_examples: "hexByte 0xDE = ''0xDE''" "hexByte 0xAD = ''0xAD''" "hexByte 0xBE = ''0xBE''" "hexByte 0xEF = ''0xEF''"
  by (simp_all add: hexByte_def hex_digit_def)

text \<open>
  Claim C1 against the code. For the stream \<open>[0xDE, 0xAD, 0xBE, 0xEF]\<close> without compression,
  width 120 and indentation 4, the read loop appends one more byte (the indeterminate
  \<open>u\<close>) after the fail state is set: the array is declared with 5 elements, the content
  line holds five tokens and the size constant is 5, whatever \<open>u\<close> is.
\<close>

theorem C1_extra_byte:
  "text_of (snd (parseAndDumpInput qc u \<lparr>pending = [0xDE, 0xAD, 0xBE, 0xEF], failed = False\<rparr> []
      0 4 120 [] ''declarations'' ''static const unsigned char'' ''declarationsSize''
      ''static const unsigned long'' False)) =
   ''static const unsigned char declarations[5] = {'' @ endl @
   ''    0xDE, 0xAD, 0xBE, 0xEF, '' @ hexByte u @ endl @
   ''};'' @ endl @ endl @
   ''static const unsigned long declarationsSize = 5;'' @ endl @ endl"
  by (simp add: parseAndDumpInput_def readLoop_good leftIndentationString_def
      contentsIndentationString_def vpl_default dumpLoop_five_bytes hexByte_examples decimal_small digit_char_def
      text_of_def spaces_4)

lemma dumpLoop_one_byte: "dumpLoop cis 19 [u] (Suc 0) 0 19 out = out @ [endl, cis, hexByte u]"
  by (simp add: dumpLoop_unfold dumpLoop_done)

text \<open>
  Claim C8 against the code. For the empty stream the same read loop yields one byte: the
  array is declared with 1 element, the body holds one token and the size constant is 1.
\<close>

theorem C8_one_byte:
  "text_of (snd (parseAndDumpInput qc u \<lparr>pending = [], failed = False\<rparr> []
      0 4 120 [] ''declarations'' ''static const unsigned char'' ''declarationsSize''
      ''static const unsigned long'' False)) =
   ''static const unsigned char declarations[1] = {'' @ endl @
   ''    '' @ hexByte u @ endl @
   ''};'' @ endl @ endl @
   ''static const unsigned long declarationsSize = 1;'' @ endl @ endl"
  by (simp add: parseAndDumpInput_def readLoop_good leftIndentationString_def
      contentsIndentationString_def vpl_default dumpLoop_one_byte decimal_small digit_char_def
      text_of_def spaces_4)

section \<open>Failure paths\<close>

lemma parseAndDumpInput_fst [simp]:
  "fst (parseAndDumpInput qc u s out left ind width prefix vn vt svn svt z) = True"
  by (simp add: parseAndDumpInput_def Let_def)

lemma parseAndDumpInput_acc:
  "snd (parseAndDumpInput qc u s out left ind width prefix vn vt svn svt z) =
     out @ snd (parseAndDumpInput qc u s [] left ind width prefix vn vt svn svt z)"
  by (simp add: parseAndDumpInput_def Let_def dumpLoop_acc [of _ _ _ _ _ _ "_ @ _"]
      dumpLoop_acc [of _ _ _ _ _ _ "[_, _, _, _, _, _, _, _]"])

lemma multiLoop_stop:
  "\<not> (success \<and> k < length inputs) \<Longrightarrow>
   multiLoop w dump inputs k success out err = (success, out, err)"
  by (subst multiLoop.simps) auto

lemma multiLoop_open_fail:
  assumes "k < length inputs" "files w (inputs ! k) = None"
  shows "multiLoop w dump inputs k True out err =
           (False, out, err @ [''*** Could not open input file '', inputs ! 0, endl])"
  using assms
  by (subst multiLoop.simps) (simp add: ifstream_open_def multiLoop_stop)

lemma multiLoop_open_ok:
  assumes "k < length inputs" "files w (inputs ! k) = Some bs"
  shows "multiLoop w dump inputs k True out err =
           multiLoop w dump inputs (k + 1)
             (fst (dump k \<lparr>pending = bs, failed = False\<rparr>
                     (out @ [''// Contents of '', inputs ! k, '':'', endl]) (resolvePrefix (inputs ! k))))
             (snd (dump k \<lparr>pending = bs, failed = False\<rparr>
                     (out @ [''// Contents of '', inputs ! k, '':'', endl]) (resolvePrefix (inputs ! k))))
             err"
  using assms
  by (subst multiLoop.simps) (simp add: ifstream_open_def Let_def split: prod.splits)

lemma multiLoop_false_cause:
  assumes ok: "\<And>j s out p. fst (dump j s out p)"
  shows "multiLoop w dump inputs k True out err = (False, out', err') \<Longrightarrow>
         \<exists>p \<in> set inputs. files w p = None"
proof (induction "length inputs - k" arbitrary: k out)
  case 0
  then show ?case by (simp add: multiLoop_stop)
next
  case (Suc m)
  then have lt: "k < length inputs" and m: "m = length inputs - (k + 1)" by auto
  show ?case
  proof (cases "files w (inputs ! k)")
    case None
    with lt show ?thesis by (auto simp: set_conv_nth)
  next
    case (Some bs)
    from Suc.prems show ?thesis
      unfolding multiLoop_open_ok [OF lt Some]
      using ok Suc.hyps(1) [OF m] by simp
  qed
qed

text \<open>
  When input \<open>k\<close> is the first that cannot be opened, the loop returns false, its output is
  the output of a run over the first \<open>k\<close> inputs alone (nothing is taken back, nothing of
  the later inputs is written), and the diagnostic names \<^verbatim>\<open>inputs.at(0)\<close>.
\<close>

lemma multiLoop_failure_at:
  assumes ok: "\<And>j s out p. fst (dump j s out p)"
    and k: "k < length inputs" and bad: "files w (inputs ! k) = None"
    and good: "\<forall>j < k. files w (inputs ! j) \<noteq> None"
  shows "j \<le> k \<Longrightarrow> multiLoop w dump inputs j True out err =
           (False, fst (snd (multiLoop w dump (take k inputs) j True out err)),
            err @ [''*** Could not open input file '', inputs ! 0, endl])"
proof (induction "k - j" arbitrary: j out)
  case 0
  then have "j = k" by simp
  then show ?case
    using k bad by (simp add: multiLoop_open_fail multiLoop_stop)
next
  case (Suc m)
  then have lt: "j < k" and m: "m = k - (j + 1)" and le: "j + 1 \<le> k" by auto
  from good lt obtain bs where bs: "files w (inputs ! j) = Some bs" by auto
  from lt k have 1: "j < length inputs" by simp
  from lt k have 2: "j < length (take k inputs)" by simp
  from lt have 3: "take k inputs ! j = inputs ! j" by simp
  from bs 3 have 4: "files w (take k inputs ! j) = Some bs" by simp
  show ?case
    unfolding multiLoop_open_ok [OF 1 bs] multiLoop_open_ok [OF 2 4] 3
    using ok Suc.hyps(1) [OF m le] by simp
qed


lemma resolvePrefix_a_bin: "resolvePrefix ''a.bin'' = ''a_bin''"
  by (simp add: resolvePrefix_def substr_def replace_char_def)

text \<open>
  Claim C7 against the code. Three inputs, of which the second cannot be opened: the loop
  stops there, the block of the first input stays in the output, the third input is not
  processed and the result is failure; but the diagnostic on \<^verbatim>\<open>std::cerr\<close> names
  \<^verbatim>\<open>inputs.at(0)\<close>, here \<^verbatim>\<open>a.bin\<close>, and not the failing path \<^verbatim>\<open>missing.bin\<close>.
\<close>

theorem C7_diagnostic_names_first_input:
  "buildPayloadHelper
      \<lparr>files = (\<lambda>p. if p = ''missing.bin'' then None else Some []),
       stdin = \<lparr>pending = [], failed = False\<rparr>, writable = (\<lambda>p. True), qCompress = qc,
       uninit = (\<lambda>k. u)\<rparr>
      [''a.bin'', ''missing.bin'', ''c.bin''] [] [] [] [] True 4 120 []
      ''declarations'' ''static const unsigned char'' ''declarationsSize''
      ''static const unsigned long'' False =
   Some (False,
     [''// Contents of '', ''a.bin'', '':'', endl] @
     snd (parseAndDumpInput qc u \<lparr>pending = [], failed = False\<rparr> [] 0 4 120 ''a_bin''
       ''declarations'' ''static const unsigned char'' ''declarationsSize''
       ''static const unsigned long'' False),
     [''*** Could not open input file '', ''a.bin'', endl])"
  apply (simp add: buildPayloadHelper_def banner_def multiLoop_open_ok multiLoop_open_fail
      resolvePrefix_a_bin)
  apply (subst parseAndDumpInput_acc)
  apply simp
  done

lemma buildPayloadHelper_false_cause:
  assumes "buildPayloadHelper w inputs out err d c nc ind width ns vn vt svn svt z =
             Some (False, out', err')"
  shows "\<exists>p \<in> set inputs. files w p = None"
proof (cases "banner d c nc width out")
  case None
  with assms show ?thesis by (simp add: buildPayloadHelper_def)
next
  case (Some out1)
  show ?thesis
  proof (cases "inputs = []")
    case True
    with assms Some show ?thesis
      by (simp add: buildPayloadHelper_def Let_def split: prod.splits if_splits)
         (metis fst_conv parseAndDumpInput_fst)+
  next
    case ne: False
    show ?thesis
    proof (cases "length inputs = 1")
      case True
      then have mem: "inputs ! 0 \<in> set inputs" by (cases inputs) simp_all
      show ?thesis
      proof (cases "files w (inputs ! 0)")
        case None
        with mem show ?thesis by blast
      next
        case (Some bs)
        with assms \<open>banner d c nc width out = Some out1\<close> ne True show ?thesis
          by (simp add: buildPayloadHelper_def Let_def ifstream_open_def split: prod.splits if_splits)
             (metis fst_conv parseAndDumpInput_fst)+
      qed
    next
      case False
      with assms Some ne show ?thesis
        by (auto simp: buildPayloadHelper_def Let_def split: prod.splits if_splits
            dest!: multiLoop_false_cause [rotated])
    qed
  qed
qed

lemma buildPayload_false_cause:
  assumes "buildPayload w inputs ofn d c nc ind width ns vn vt svn svt z =
             Some (False, cout, fout, err)"
  shows "(ofn \<noteq> [] \<and> \<not> writable w ofn) \<or> (\<exists>p \<in> set inputs. files w p = None)"
  using assms
  by (auto simp: buildPayload_def split: if_splits dest: buildPayloadHelper_false_cause)

lemma main_failure_cause:
  assumes "main strtoul w argumentValues = Some (1, cout, file, cerr)"
  shows "(\<exists>p \<in> set (m_inputs (parseLoop strtoul argumentValues 1 initial_state)). files w p = None)
         \<or> (m_outputFilename (parseLoop strtoul argumentValues 1 initial_state) \<noteq> []
             \<and> \<not> writable w (m_outputFilename (parseLoop strtoul argumentValues 1 initial_state)))
         \<or> \<not> m_success (parseLoop strtoul argumentValues 1 initial_state)"
proof (cases "m_success (parseLoop strtoul argumentValues 1 initial_state)")
  case False
  then show ?thesis by simp
next
  case True
  let ?st = "parseLoop strtoul argumentValues 1 initial_state"
  from assms True have nh: "\<not> m_helpRequested ?st"
    by (auto simp: main_def Let_def)
  with assms True obtain out fo err where
    "buildPayload w (m_inputs ?st) (m_outputFilename ?st) (m_description ?st)
        (m_copyrightMessage ?st) (m_removeCopyright ?st) (m_indentation ?st) (m_width ?st)
        (m_namespaceName ?st) (m_variableName ?st) (m_variableType ?st)
        (m_sizeVariableName ?st) (m_sizeVariableType ?st) (m_useZlib ?st) = Some (False, out, fo, err)"
    by (auto simp: main_def Let_def split: if_splits)
  from buildPayload_false_cause [OF this] show ?thesis by blast
qed

lemma parse_missing:
  "parseLoop strtoul [''build_payload'', ''-C'', ''-Z'', ''missing.bin''] 1 initial_state =
     initial_state\<lparr>m_removeCopyright := True, m_useZlib := False, m_inputs := [''missing.bin'']\<rparr>"
  by (simp add: parseLoop.simps parseArgument_def initial_state_def)

lemma helper_missing:
  "buildPayloadHelper example_world [''missing.bin''] [] [] [] c True 4 120 []
     ''declarations'' ''static const unsigned char'' ''declarationsSize''
     ''static const unsigned long'' False =
   Some (False, [], [''*** Could not open input file '', ''missing.bin'', endl])"
  by (simp add: buildPayloadHelper_def banner_def ifstream_open_def example_world_def)

text \<open>
  Claim C10. \<^verbatim>\<open>parseAndDumpInput\<close> returns true for every stream and every configuration.
  So when \<^verbatim>\<open>buildPayloadHelper\<close> returns false, one of the inputs could not be opened; when
  \<^verbatim>\<open>buildPayload\<close> returns false, the output file or one of the inputs could not be opened;
  and when \<^verbatim>\<open>main\<close> exits with status 1, one of the inputs named on the command line could
  not be opened, or the output file could not be opened, or the argument loop rejected the
  command line.
\<close>

theorem C10_no_formatting_failure:
  "fst (parseAndDumpInput qc u s out left ind width prefix vn vt svn svt z)
   \<and> (buildPayloadHelper w inputs out err d c nc ind width ns vn vt svn svt z =
          Some (False, out1, err1) \<longrightarrow>
        (\<exists>p \<in> set inputs. files w p = None))
   \<and> (buildPayload w inputs ofn d c nc ind width ns vn vt svn svt z =
          Some (False, cout2, file2, err2) \<longrightarrow>
        (ofn \<noteq> [] \<and> \<not> writable w ofn) \<or> (\<exists>p \<in> set inputs. files w p = None))
   \<and> (main strtoul w argumentValues = Some (1, cout3, file3, err3) \<longrightarrow>
        (\<exists>p \<in> set (m_inputs (parseLoop strtoul argumentValues 1 initial_state)). files w p = None)
        \<or> (m_outputFilename (parseLoop strtoul argumentValues 1 initial_state) \<noteq> []
            \<and> \<not> writable w (m_outputFilename (parseLoop strtoul argumentValues 1 initial_state)))
        \<or> \<not> m_success (parseLoop strtoul argumentValues 1 initial_state))"
proof (intro conjI impI)
  show "fst (parseAndDumpInput qc u s out left ind width prefix vn vt svn svt z)"
    by simp
  show "\<exists>p \<in> set inputs. files w p = None"
    if "buildPayloadHelper w inputs out err d c nc ind width ns vn vt svn svt z =
          Some (False, out1, err1)"
    using that by (rule buildPayloadHelper_false_cause)
  show "(ofn \<noteq> [] \<and> \<not> writable w ofn) \<or> (\<exists>p \<in> set inputs. files w p = None)"
    if "buildPayload w inputs ofn d c nc ind width ns vn vt svn svt z =
          Some (False, cout2, file2, err2)"
    using that by (rule buildPayload_false_cause)
  show "(\<exists>p \<in> set (m_inputs (parseLoop strtoul argumentValues 1 initial_state)). files w p = None)
        \<or> (m_outputFilename (parseLoop strtoul argumentValues 1 initial_state) \<noteq> []
            \<and> \<not> writable w (m_outputFilename (parseLoop strtoul argumentValues 1 initial_state)))
        \<or> \<not> m_success (parseLoop strtoul argumentValues 1 initial_state)"
    if "main strtoul w argumentValues = Some (1, cout3, file3, err3)"
    using that by (rule main_failure_cause)
qed

text \<open>
  The theorem at a run whose only input cannot be opened: each of the three functions
  reports failure, the arguments are accepted and no output file is named.
\<close>

theorem C10_no_formatting_failure_witness:
  "buildPayloadHelper example_world [''missing.bin''] [] [] [] [] True 4 120 []
     ''declarations'' ''static const unsigned char'' ''declarationsSize''
     ''static const unsigned long'' False =
     Some (False, [], [''*** Could not open input file '', ''missing.bin'', endl])
   \<and> buildPayload example_world [''missing.bin''] [] [] [] True 4 120 []
     ''declarations'' ''static const unsigned char'' ''declarationsSize''
     ''static const unsigned long'' False =
     Some (False, [], None, [''*** Could not open input file '', ''missing.bin'', endl])
   \<and> main (\<lambda>s. 0) example_world [''build_payload'', ''-C'', ''-Z'', ''missing.bin''] =
     Some (1, [], None, [''*** Could not open input file '', ''missing.bin'', endl])
   \<and> (\<exists>p \<in> set [''missing.bin'']. files example_world p = None)
   \<and> m_success (parseLoop (\<lambda>s. 0) [''build_payload'', ''-C'', ''-Z'', ''missing.bin''] 1 initial_state)
   \<and> m_outputFilename (parseLoop (\<lambda>s. 0) [''build_payload'', ''-C'', ''-Z'', ''missing.bin''] 1
        initial_state) = []
   \<and> (\<exists>p \<in> set (m_inputs (parseLoop (\<lambda>s. 0) [''build_payload'', ''-C'', ''-Z'', ''missing.bin''] 1
        initial_state)). files example_world p = None)"
proof -
  have h: "buildPayloadHelper example_world [''missing.bin''] [] [] [] [] True 4 120 []
     ''declarations'' ''static const unsigned char'' ''declarationsSize''
     ''static const unsigned long'' False =
     Some (False, [], [''*** Could not open input file '', ''missing.bin'', endl])"
    by (rule helper_missing)
  have b: "buildPayload example_world [''missing.bin''] [] [] [] True 4 120 []
     ''declarations'' ''static const unsigned char'' ''declarationsSize''
     ''static const unsigned long'' False =
     Some (False, [], None, [''*** Could not open input file '', ''missing.bin'', endl])"
    by (simp add: buildPayload_def helper_missing)
  have m: "main (\<lambda>s. 0) example_world [''build_payload'', ''-C'', ''-Z'', ''missing.bin''] =
     Some (1, [], None, [''*** Could not open input file '', ''missing.bin'', endl])"
    by (simp only: main_def parse_missing)
       (simp add: initial_state_def buildPayload_def helper_missing)
  have p: "m_success (parseLoop (\<lambda>s. 0) [''build_payload'', ''-C'', ''-Z'', ''missing.bin''] 1 initial_state)"
    "m_outputFilename (parseLoop (\<lambda>s. 0) [''build_payload'', ''-C'', ''-Z'', ''missing.bin''] 1
        initial_state) = []"
    by (simp_all only: parse_missing) (simp_all add: initial_state_def)
  from C10_no_formatting_failure [where out = "[]" and ind = 4 and width = 120 and vn = "''declarations''"
      and vt = "''static const unsigned char''" and svn = "''declarationsSize''"
      and svt = "''static const unsigned long''" and z = False and w = example_world
      and inputs = "[''missing.bin'']" and err = "[]" and d = "[]" and c = "[]" and nc = True
      and ns = "[]" and ?out1.0 = "[]"
      and ?err1.0 = "[''*** Could not open input file '', ''missing.bin'', endl]"
      and ofn = "[]" and ?cout2.0 = "[]" and ?file2.0 = None
      and ?err2.0 = "[''*** Could not open input file '', ''missing.bin'', endl]"
      and strtoul = "\<lambda>s. 0" and argumentValues = "[''build_payload'', ''-C'', ''-Z'', ''missing.bin'']"
      and ?cout3.0 = "[]" and ?file3.0 = None
      and ?err3.0 = "[''*** Could not open input file '', ''missing.bin'', endl]"]
  show ?thesis
    unfolding parse_missing using h b m by (simp add: initial_state_def)
qed

section \<open>Lines and the left margin\<close>

text \<open>For evaluation, \<open>lines_of\<close> with one recursive call for each character.\<close>

lemma lines_of_code [code]:
  "lines_of [] = [[]]"
  "lines_of (c # cs) =
     (let r = lines_of cs in if c = CHR 0x0A then [] # r else (c # hd r) # tl r)"
  by (simp_all add: Let_def)

lemma lines_of_append_nl: "lines_of (a @ CHR 0x0A # b) = lines_of a @ lines_of b"
proof (induction a)
  case Nil
  show ?case by simp
next
  case (Cons c a)
  have ne: "lines_of a \<noteq> []" by (cases a) simp_all
  show ?case
    using Cons.IH ne by (cases "lines_of a") simp_all
qed

lemma lines_of_nonl: "CHR 0x0A \<notin> set s \<Longrightarrow> lines_of s = [s]"
  by (induction s) auto

lemma lines_of_line: "CHR 0x0A \<notin> set s \<Longrightarrow> lines_of (s @ CHR 0x0A # b) = s # lines_of b"
  by (simp add: lines_of_append_nl lines_of_nonl)

lemma lines_of_append_subset:
  assumes "a = [] \<or> last a = CHR 0x0A"
  shows "set (lines_of (a @ b)) \<subseteq> set (lines_of a) \<union> set (lines_of b)"
proof (cases "a = []")
  case True
  then show ?thesis by auto
next
  case False
  with assms obtain a' where a: "a = a' @ [CHR 0x0A]"
    by (metis append_butlast_last_id)
  have "lines_of a = lines_of a' @ [[]]"
    unfolding a using lines_of_append_nl [of a' "[]"] by simp
  moreover have "lines_of (a @ b) = lines_of a' @ lines_of b"
    unfolding a using lines_of_append_nl [of a' b] by simp
  ultimately show ?thesis by auto
qed

lemma hex_digits_no_newline: "list_all (\<lambda>n. hex_digit n \<noteq> CHR 0x0A) [0..<16]"
  by code_simp

lemma hex_digit_no_newline: "n < 16 \<Longrightarrow> hex_digit n \<noteq> CHR 0x0A"
  using hex_digits_no_newline by (simp add: list_all_iff)

lemma hexByte_no_newline: "CHR 0x0A \<notin> set (hexByte v)"
proof -
  have "unat v < 256" using unsigned_less [of v] by simp
  then have "unat v div 16 < 16" "unat v mod 16 < 16" by simp_all
  then have "hex_digit (unat v div 16) \<noteq> CHR 0x0A" "hex_digit (unat v mod 16) \<noteq> CHR 0x0A"
    by (simp_all add: hex_digit_no_newline)
  then show ?thesis
    by (auto simp: hexByte_def)
qed

lemma length_spaces [simp]: "length (spaces n) = n"
  by (simp add: spaces_replicate)

lemma spaces_no_newline: "CHR 0x0A \<notin> set (spaces k)"
  by (simp add: spaces_replicate)

lemma take_content: "take (K + 2) (spaces K @ hexByte v @ r) = spaces K @ ''0x''"
  by (simp add: hexByte_def)

text \<open>
  The lines of the array body after the text \<open>cur\<close> of the line in progress: \<open>cur\<close> is
  continued (not at all when the loop starts with a full line), and every further line is
  the content margin followed by a token.
\<close>

lemma body_lines:
  "CHR 0x0A \<notin> set cur \<Longrightarrow>
   \<exists>x ls. lines_of (cur @ concat (dumpLoop (spaces K) vpl d n i vtl [])) = (cur @ x) # ls
     \<and> (vpl \<le> vtl \<longrightarrow> x = [])
     \<and> (\<forall>l \<in> set ls. take (K + 2) l = spaces K @ ''0x'')"
proof (induction "n - i" arbitrary: i vtl cur)
  case 0
  then show ?case by (simp add: dumpLoop_done lines_of_nonl)
next
  case (Suc m)
  then have lt: "i < n" and m: "m = n - (i + 1)" by auto
  let ?tok = "hexByte (d ! i) @ (if i < n - 1 then '', '' else [])"
  have tok: "CHR 0x0A \<notin> set ?tok" by (simp add: hexByte_no_newline)
  show ?case
  proof (cases "vpl \<le> vtl")
    case True
    let ?cur = "spaces K @ ?tok"
    have 1: "CHR 0x0A \<notin> set ?cur" using tok by (simp add: spaces_no_newline)
    have e: "cur @ concat (dumpLoop (spaces K) vpl d n i vtl []) =
             cur @ CHR 0x0A # (?cur @ concat (dumpLoop (spaces K) vpl d n (i + 1) 1 []))"
      unfolding dumpLoop_step [OF lt] using True by (simp add: endl_def)
    from Suc.hyps(1) [OF m 1, of 1] obtain x ls where
      r: "lines_of (?cur @ concat (dumpLoop (spaces K) vpl d n (i + 1) 1 [])) = (?cur @ x) # ls"
         "\<forall>l \<in> set ls. take (K + 2) l = spaces K @ ''0x''"
      by blast
    have c: "take (K + 2) (?cur @ x) = spaces K @ ''0x''"
      using take_content [of K "d ! i" "(if i < n - 1 then '', '' else []) @ x"] by simp
    have "lines_of (cur @ concat (dumpLoop (spaces K) vpl d n i vtl [])) =
            (cur @ []) # (?cur @ x) # ls"
      unfolding e lines_of_line [OF Suc.prems(1)] r(1) by simp
    with c r(2) show ?thesis by (intro exI [of _ "[]"] exI [of _ "(?cur @ x) # ls"]) simp
  next
    case False
    let ?cur = "cur @ ?tok"
    have 1: "CHR 0x0A \<notin> set ?cur" using tok Suc.prems(1) by simp
    have e: "cur @ concat (dumpLoop (spaces K) vpl d n i vtl []) =
             ?cur @ concat (dumpLoop (spaces K) vpl d n (i + 1) (vtl + 1) [])"
      unfolding dumpLoop_step [OF lt] using False by simp
    from Suc.hyps(1) [OF m 1, of "vtl + 1"] obtain x ls where
      r: "lines_of (?cur @ concat (dumpLoop (spaces K) vpl d n (i + 1) (vtl + 1) [])) = (?cur @ x) # ls"
         "\<forall>l \<in> set ls. take (K + 2) l = spaces K @ ''0x''"
      by blast
    have "lines_of (cur @ concat (dumpLoop (spaces K) vpl d n i vtl [])) = (cur @ (?tok @ x)) # ls"
      unfolding e r(1) by simp
    with r(2) False show ?thesis by (intro exI [of _ "?tok @ x"] exI [of _ ls]) simp
  qed
qed

lemma digits_no_newline: "list_all (\<lambda>n. digit_char n \<noteq> CHR 0x0A) [0..<10]"
  by code_simp

lemma digit_no_newline: "n < 10 \<Longrightarrow> digit_char n \<noteq> CHR 0x0A"
  using digits_no_newline by (simp add: list_all_iff)

lemma decimal_no_newline: "CHR 0x0A \<notin> set (decimal n)"
proof (induction n rule: decimal.induct)
  case (1 n)
  show ?case
  proof (cases "n < 10")
    case True
    then have "digit_char n \<noteq> CHR 0x0A" by (rule digit_no_newline)
    with True show ?thesis
      by (subst decimal.simps) auto
  next
    case False
    have "digit_char (n mod 10) \<noteq> CHR 0x0A"
      by (rule digit_no_newline) simp
    with False 1 show ?thesis
      by (subst decimal.simps) auto
  qed
qed

lemma block_text:
  "text_of (snd (parseAndDumpInput qc u s [] left ind width prefix vn vt svn svt z)) =
     (let outputData = (if z then qc (readLoop u s []) 9 else readLoop u s []);
          lis = spaces (unat left)
      in (lis @ vt @ '' '' @ prefix @ vn @ ''['' @ decimal (length outputData) @ ''] = {'' @
          concat (arrayBody left ind width outputData)) @
         CHR 0x0A # (lis @ ''};'') @
         CHR 0x0A # CHR 0x0A #
         (lis @ svt @ '' '' @ prefix @ svn @ '' = '' @ decimal (length outputData) @ '';'') @
         CHR 0x0A # CHR 0x0A # [])"
  by (simp add: parseAndDumpInput_def text_of_def Let_def endl_def arrayBody_def
      leftIndentationString_def dumpLoop_acc [of _ _ _ _ _ _ "[_, _, _, _, _, _, _, _]"])

text \<open>
  The lines of one block, when the names and types hold no newline: the header, the content
  lines, the closing line, a blank line, the size declaration and two blank lines.
\<close>

lemma block_lines:
  assumes nonl: "CHR 0x0A \<notin> set vt" "CHR 0x0A \<notin> set prefix" "CHR 0x0A \<notin> set vn"
                "CHR 0x0A \<notin> set svn" "CHR 0x0A \<notin> set svt"
  shows "\<forall>l \<in> set (lines_of (text_of (snd (parseAndDumpInput qc u s [] left ind width prefix
             vn vt svn svt z)))). payload_line (unat left) (unat (left + ind)) vt svt inputs l"
proof -
  define outputData where "outputData = (if z then qc (readLoop u s []) 9 else readLoop u s [])"
  define hdr where "hdr = spaces (unat left) @ vt @ '' '' @ prefix @ vn @ ''['' @
     decimal (length outputData) @ ''] = {''"
  define cl where "cl = spaces (unat left) @ ''};''"
  define sz where "sz = spaces (unat left) @ svt @ '' '' @ prefix @ svn @ '' = '' @
     decimal (length outputData) @ '';''"
  have hdr: "CHR 0x0A \<notin> set hdr"
    "take (unat left + length vt + 1) hdr = spaces (unat left) @ vt @ '' ''"
    using nonl by (simp_all add: hdr_def spaces_no_newline decimal_no_newline)
  have cl: "CHR 0x0A \<notin> set cl"
    by (simp add: cl_def spaces_no_newline)
  have sz: "CHR 0x0A \<notin> set sz"
    "take (unat left + length svt + 1) sz = spaces (unat left) @ svt @ '' ''"
    using nonl by (simp_all add: sz_def spaces_no_newline decimal_no_newline)
  have t: "text_of (snd (parseAndDumpInput qc u s [] left ind width prefix vn vt svn svt z)) =
       (hdr @ concat (arrayBody left ind width outputData)) @
       CHR 0x0A # cl @ CHR 0x0A # CHR 0x0A # sz @ CHR 0x0A # CHR 0x0A # []"
    unfolding block_text by (simp add: Let_def hdr_def cl_def sz_def outputData_def)
  have l: "lines_of (text_of (snd (parseAndDumpInput qc u s [] left ind width prefix vn vt svn svt z))) =
       lines_of (hdr @ concat (arrayBody left ind width outputData)) @ [cl, [], sz, [], []]"
    unfolding t lines_of_append_nl [of "hdr @ concat (arrayBody left ind width outputData)"]
    by (simp add: lines_of_line [OF sz(1)] lines_of_line [OF cl(1)])
  obtain x ls where
    b: "lines_of (hdr @ concat (arrayBody left ind width outputData)) = (hdr @ x) # ls"
       "valuesPerLine width ind left \<le> valuesPerLine width ind left \<longrightarrow> x = []"
       "\<forall>l \<in> set ls. take (unat (left + ind) + 2) l = spaces (unat (left + ind)) @ ''0x''"
    unfolding arrayBody_def contentsIndentationString_def
    using body_lines [OF hdr(1)] by blast
  from b(2) have x: "x = []" by simp
  show ?thesis
    unfolding l b(1) x using hdr(2) sz(2) b(3)
    by (auto simp: payload_line_def cl_def)
qed

lemma block_ends: "\<exists>t. text_of (snd (parseAndDumpInput qc u s [] left ind width prefix vn vt svn svt z)) = t @ [CHR 0x0A]"
  unfolding block_text by (simp add: Let_def)


lemma text_of_append [simp]: "text_of (a @ b) = text_of a @ text_of b"
  by (simp add: text_of_def)

lemma resolvePrefix_no_newline:
  assumes "CHR 0x0A \<notin> set p"
  shows "CHR 0x0A \<notin> set (resolvePrefix p)"
proof -
  have "set (takeWhile (\<lambda>c. c \<noteq> CHR ''/'' \<and> c \<noteq> CHR 0x5C) (rev p)) \<subseteq> set p"
    using set_takeWhileD [of _ _ "rev p"] by auto
  with assms show ?thesis
    unfolding resolvePrefix_basename by auto
qed

lemma multi_lines:
  assumes dump_def: "dump = (\<lambda>k inputStream out prefix.
             parseAndDumpInput qc (un k) inputStream out left ind width prefix vn vt svn svt z)"
    and nonl: "CHR 0x0A \<notin> set vt" "CHR 0x0A \<notin> set vn" "CHR 0x0A \<notin> set svn" "CHR 0x0A \<notin> set svt"
    and paths: "\<forall>p \<in> set inputs. CHR 0x0A \<notin> set p"
    and many: "1 < length inputs"
  shows "\<exists>payload. text_of (fst (snd (multiLoop w dump inputs k True out err))) = text_of out @ payload
           \<and> (payload = [] \<or> last payload = CHR 0x0A)
           \<and> (\<forall>l \<in> set (lines_of payload).
                 payload_line (unat left) (unat (left + ind)) vt svt inputs l)"
proof (induction "length inputs - k" arbitrary: k out)
  case 0
  then show ?case by (simp add: multiLoop_stop payload_line_def)
next
  case (Suc m)
  then have lt: "k < length inputs" and m: "m = length inputs - (k + 1)" by auto
  show ?case
  proof (cases "files w (inputs ! k)")
    case None
    then show ?thesis
      using lt by (simp add: multiLoop_open_fail payload_line_def)
  next
    case (Some bs)
    let ?p = "inputs ! k"
    let ?s = "\<lparr>pending = bs, failed = False\<rparr>"
    let ?block = "text_of (snd (parseAndDumpInput qc (un k) ?s [] left ind width (resolvePrefix ?p)
                     vn vt svn svt z))"
    let ?out1 = "snd (dump k ?s (out @ [''// Contents of '', ?p, '':'', endl]) (resolvePrefix ?p))"
    let ?ok = "payload_line (unat left) (unat (left + ind)) vt svt inputs"
    from lt paths have p: "CHR 0x0A \<notin> set ?p" "?p \<in> set inputs" by simp_all
    have cm: "CHR 0x0A \<notin> set (contents_comment ?p)"
      using p by (simp add: contents_comment_def)
    have o1: "text_of ?out1 = text_of out @ contents_comment ?p @ CHR 0x0A # ?block"
      unfolding dump_def
      by (subst parseAndDumpInput_acc) (simp add: text_of_def contents_comment_def endl_def)
    from Suc.hyps(1) [OF m, of ?out1] obtain rest where
      r: "text_of (fst (snd (multiLoop w dump inputs (k + 1) True ?out1 err))) = text_of ?out1 @ rest"
         "rest = [] \<or> last rest = CHR 0x0A"
         "\<forall>l \<in> set (lines_of rest). ?ok l"
      by blast
    obtain t where t: "?block = t @ [CHR 0x0A]" using block_ends by blast
    have bl: "\<forall>l \<in> set (lines_of ?block). ?ok l"
      by (rule block_lines [OF nonl(1) resolvePrefix_no_newline [OF p(1)] nonl(2,3,4)])
    have "set (lines_of (?block @ rest)) \<subseteq> set (lines_of ?block) \<union> set (lines_of rest)"
      by (rule lines_of_append_subset) (simp add: t)
    with bl r(3) have br: "\<forall>l \<in> set (lines_of (?block @ rest)). ?ok l"
      by blast
    have c: "?ok (contents_comment ?p)"
      using p(2) many by (simp add: payload_line_def)
    have step: "multiLoop w dump inputs k True out err =
                multiLoop w dump inputs (k + 1) True ?out1 err"
      unfolding multiLoop_open_ok [OF lt Some] by (simp add: dump_def)
    have "text_of (fst (snd (multiLoop w dump inputs k True out err))) =
            text_of out @ (contents_comment ?p @ CHR 0x0A # (?block @ rest))"
      unfolding step r(1) o1 by simp
    moreover have "last (contents_comment ?p @ CHR 0x0A # (?block @ rest)) = CHR 0x0A"
      using r(2) by (auto simp: t)
    moreover have "\<forall>l \<in> set (lines_of (contents_comment ?p @ CHR 0x0A # (?block @ rest))). ?ok l"
      unfolding lines_of_line [OF cm] using c br by simp
    ultimately show ?thesis by blast
  qed
qed

lemma starLoop_returns: "bound \<noteq> - 1 \<Longrightarrow> \<exists>out'. starLoop column bound out = Some out'"
proof (induction "unat bound + 1 - unat column" arbitrary: column out)
  case 0
  then have "\<not> column \<le> bound" by (simp add: word_le_nat_alt)
  then show ?case by (subst starLoop.simps) simp
next
  case (Suc m)
  show ?case
  proof (cases "column \<le> bound")
    case False
    then show ?thesis by (subst starLoop.simps) simp
  next
    case True
    from Suc.prems have "bound < - 1" by (simp add: word_order.not_eq_extremum)
    with True have "column < - 1" by simp
    then have "unat (column + 1) = unat column + 1" by (rule unat_inc_below)
    with Suc.hyps(2) have "m = unat bound + 1 - unat (column + 1)" by simp
    from Suc.hyps(1) [OF this Suc.prems] True show ?thesis
      by (subst starLoop.simps) simp
  qed
qed

text \<open>
  The banner loops end exactly when no banner is printed, or the width is neither 0 nor
  \<open>2^32 - 1\<close> and, where the copyright message and a description are both printed, not 3.
\<close>

lemma banner_returns:
  assumes "(noCopyrightMessage \<and> description = []) \<or>
           (width \<noteq> - 1 \<and> width \<noteq> 0 \<and> (noCopyrightMessage \<or> description = [] \<or> width \<noteq> 3))"
  shows "\<exists>b. banner description copyrightMessage noCopyrightMessage width out = Some b"
proof (cases "\<not> noCopyrightMessage \<or> description \<noteq> []")
  case False
  then show ?thesis by (simp add: banner_def)
next
  case True
  with assms have w: "width \<noteq> - 1" "width \<noteq> 0"
    and w3: "\<not> noCopyrightMessage \<and> description \<noteq> [] \<Longrightarrow> width \<noteq> 3"
    by auto
  from w have 1: "width - 1 \<noteq> - 1" by simp
  obtain o1 where o1: "starLoop 13 width (out @ [''/*-*-c++-*-*'']) = Some o1"
    using starLoop_returns [OF w(1)] by blast
  define out3 where "out3 = (if \<not> noCopyrightMessage
     then commentLines (getlines [] copyrightMessage) (o1 @ [endl]) else o1 @ [endl])"
  obtain o4 where o4: "(if \<not> noCopyrightMessage \<and> description \<noteq> []
                     then map_option (\<lambda>out. out @ [''//**'', endl]) (starLoop 1 (width - 4) out3)
                     else Some out3) = Some o4"
  proof (cases "\<not> noCopyrightMessage \<and> description \<noteq> []")
    case False
    then have "(if \<not> noCopyrightMessage \<and> description \<noteq> []
                then map_option (\<lambda>out. out @ [''//**'', endl]) (starLoop 1 (width - 4) out3)
                else Some out3) = Some out3"
      by (simp only: if_False)
    then show ?thesis by (rule that)
  next
    case both: True
    from w3 [OF both] have "width - 4 \<noteq> - 1" by simp
    from starLoop_returns [OF this, of 1 out3] both show ?thesis using that by auto
  qed
  define out5 where "out5 = (if description \<noteq> []
                               then commentLines (getlines [] description)
                                      (o4 @ [''* '' @ [CHR 0x5C] @ ''file'', endl, ''*'', endl])
                               else o4)"
  obtain o6 where o6: "starLoop 1 (width - 1) out5 = Some o6"
    using starLoop_returns [OF 1] by blast
  show ?thesis
    using True o1 o4 o6 unfolding out3_def out5_def
    by (simp add: banner_def Let_def)
qed

text \<open>
  A banner loop whose bound is the largest \<^verbatim>\<open>unsigned\<close> value does not return. So with width 0
  a printed banner never ends, and \<^verbatim>\<open>buildPayloadHelper\<close> writes nothing after it.
\<close>

lemma starLoop_Some_bound:
  assumes "starLoop column bound out = Some y"
  shows "bound \<noteq> - 1"
proof (rule starLoop.raw_induct [where P = "\<lambda>c b out y. b \<noteq> - 1", OF _ assms])
  fix loop :: "uint \<Rightarrow> uint \<Rightarrow> ostream \<Rightarrow> ostream option"
    and c b :: uint and out y :: ostream
  assume IH: "\<And>c b out y. loop c b out = Some y \<Longrightarrow> b \<noteq> - 1"
    and eq: "(if c \<le> b then loop (c + 1) b (out @ [''*'']) else Some out) = Some y"
  show "b \<noteq> - 1"
  proof (cases "c \<le> b")
    case True
    with eq have "loop (c + 1) b (out @ [''*'']) = Some y" by simp
    then show ?thesis by (rule IH)
  next
    case False
    then show ?thesis by auto
  qed
qed

lemma starLoop_diverges: "starLoop column (- 1) out = None"
  using starLoop_Some_bound [of column "- 1" out] by (cases "starLoop column (- 1) out") auto

lemma banner_width_0:
  assumes "\<not> noCopyrightMessage \<or> description \<noteq> []"
  shows "banner description copyrightMessage noCopyrightMessage 0 out = None"
proof -
  have 1: "starLoop 13 0 (out @ [''/*-*-c++-*-*'']) = Some (out @ [''/*-*-c++-*-*''])"
    by (subst starLoop.simps) simp
  show ?thesis
    using assms
    by (simp add: banner_def 1 starLoop_diverges Let_def split: option.splits)
qed

lemma buildPayloadHelper_width_0:
  assumes "\<not> noCopyrightMessage \<or> description \<noteq> []"
  shows "buildPayloadHelper w inputs out err description copyrightMessage noCopyrightMessage
           indentation 0 namespaceName variableName variableType sizeVariableName
           sizeVariableType zlibCompress = None"
  by (simp add: buildPayloadHelper_def banner_width_0 [OF assms])

lemma banner_width_max:
  assumes "\<not> noCopyrightMessage \<or> description \<noteq> []"
  shows "banner description copyrightMessage noCopyrightMessage (- 1) out = None"
  using assms by (simp add: banner_def starLoop_diverges)

lemma banner_width_3:
  assumes "\<not> noCopyrightMessage" "description \<noteq> []"
  shows "banner description copyrightMessage noCopyrightMessage 3 out = None"
proof -
  have 1: "starLoop 13 3 (out @ [''/*-*-c++-*-*'']) = Some (out @ [''/*-*-c++-*-*''])"
    by (subst starLoop.simps) simp
  show ?thesis
    using assms by (simp add: banner_def 1 starLoop_diverges Let_def)
qed

lemma banner_returns_iff:
  "(\<exists>b. banner description copyrightMessage noCopyrightMessage width out = Some b) =
   ((noCopyrightMessage \<and> description = []) \<or>
    (width \<noteq> - 1 \<and> width \<noteq> 0 \<and> (noCopyrightMessage \<or> description = [] \<or> width \<noteq> 3)))"
proof
  assume r: "\<exists>b. banner description copyrightMessage noCopyrightMessage width out = Some b"
  show "(noCopyrightMessage \<and> description = []) \<or>
    (width \<noteq> - 1 \<and> width \<noteq> 0 \<and> (noCopyrightMessage \<or> description = [] \<or> width \<noteq> 3))"
  proof (rule ccontr)
    assume n: "\<not> ((noCopyrightMessage \<and> description = []) \<or>
      (width \<noteq> - 1 \<and> width \<noteq> 0 \<and> (noCopyrightMessage \<or> description = [] \<or> width \<noteq> 3)))"
    then have p: "\<not> noCopyrightMessage \<or> description \<noteq> []" by auto
    from n consider "width = - 1" | "width = 0"
      | "\<not> noCopyrightMessage" "description \<noteq> []" "width = 3" by auto
    then have "banner description copyrightMessage noCopyrightMessage width out = None"
    proof cases
      case 1
      then show ?thesis using banner_width_max [OF p] by simp
    next
      case 2
      then show ?thesis using banner_width_0 [OF p] by simp
    next
      case 3
      then show ?thesis using banner_width_3 by simp
    qed
    with r show False by simp
  qed
next
  assume "(noCopyrightMessage \<and> description = []) \<or>
    (width \<noteq> - 1 \<and> width \<noteq> 0 \<and> (noCopyrightMessage \<or> description = [] \<or> width \<noteq> 3))"
  then show "\<exists>b. banner description copyrightMessage noCopyrightMessage width out = Some b"
    by (rule banner_returns)
qed

lemma multiLoop_extends:
  assumes dump_def: "dump = (\<lambda>k inputStream out prefix.
             parseAndDumpInput qc (un k) inputStream out left ind width prefix vn vt svn svt z)"
  shows "\<exists>R. fst (snd (multiLoop w dump inputs k True out err)) = out @ R"
proof (induction "length inputs - k" arbitrary: k out)
  case 0
  then show ?case by (simp add: multiLoop_stop)
next
  case (Suc m)
  then have lt: "k < length inputs" and m: "m = length inputs - (k + 1)" by auto
  show ?case
  proof (cases "files w (inputs ! k)")
    case None
    then show ?thesis using lt by (simp add: multiLoop_open_fail)
  next
    case (Some bs)
    let ?s = "\<lparr>pending = bs, failed = False\<rparr>"
    let ?c = "[''// Contents of '', inputs ! k, '':'', endl]"
    have a: "snd (dump k ?s (out @ ?c) (resolvePrefix (inputs ! k))) =
             (out @ ?c) @ snd (dump k ?s [] (resolvePrefix (inputs ! k)))"
      unfolding dump_def by (subst parseAndDumpInput_acc) simp
    have step: "multiLoop w dump inputs k True out err =
                multiLoop w dump inputs (k + 1) True
                  ((out @ ?c) @ snd (dump k ?s [] (resolvePrefix (inputs ! k)))) err"
      unfolding multiLoop_open_ok [OF lt Some] a by (simp add: dump_def)
    from Suc.hyps(1) [OF m, of "(out @ ?c) @ snd (dump k ?s [] (resolvePrefix (inputs ! k)))"]
    show ?thesis unfolding step by auto
  qed
qed

text \<open>
  Claim C9 as stated fails. With namespace \<^verbatim>\<open>ns\<close>, indentation 4 and the two inputs
  \<^verbatim>\<open>a.bin\<close> and \<^verbatim>\<open>b.bin\<close>, the line after the opening scope line is the comment line
  \<^verbatim>\<open>// Contents of a.bin:\<close>, which is not blank and does not start with four spaces.
\<close>

theorem C9_counterexample:
  "buildPayloadHelper example_world [''a.bin'', ''b.bin''] [] [] [] [] True 4 120 ''ns''
      ''declarations'' ''static const unsigned char'' ''declarationsSize''
      ''static const unsigned long'' False \<noteq> None
   \<and> lines_of (text_of (fst (snd (the (buildPayloadHelper example_world [''a.bin'', ''b.bin''] [] [] [] []
      True 4 120 ''ns'' ''declarations'' ''static const unsigned char'' ''declarationsSize''
      ''static const unsigned long'' False))))) ! 0 = ''namespace ns{''
   \<and> lines_of (text_of (fst (snd (the (buildPayloadHelper example_world [''a.bin'', ''b.bin''] [] [] [] []
      True 4 120 ''ns'' ''declarations'' ''static const unsigned char'' ''declarationsSize''
      ''static const unsigned long'' False))))) ! 1 = ''// Contents of a.bin:''
   \<and> take 4 ''// Contents of a.bin:'' \<noteq> spaces 4"
proof -
  let ?dump = "\<lambda>k inputStream out prefix.
     parseAndDumpInput (qCompress example_world) (uninit example_world k) inputStream out 4 4 120
       prefix ''declarations'' ''static const unsigned char'' ''declarationsSize''
       ''static const unsigned long'' False"
  let ?run = "buildPayloadHelper example_world [''a.bin'', ''b.bin''] [] [] [] [] True 4 120 ''ns''
      ''declarations'' ''static const unsigned char'' ''declarationsSize''
      ''static const unsigned long'' False"
  let ?out2 = "[''namespace '', ''ns'', ''{'', endl]"
  let ?c = "[''// Contents of '', ''a.bin'', '':'', endl]"
  have f: "files example_world ([''a.bin'', ''b.bin''] ! 0) = Some []"
    by (simp add: example_world_def)
  have lt: "0 < length [''a.bin'', ''b.bin'']" by simp
  have run: "?run = Some (multiLoop example_world ?dump [''a.bin'', ''b.bin''] 0 True ?out2 [])"
    by (simp add: buildPayloadHelper_def banner_def)
  obtain B where B: "snd (?dump 0 \<lparr>pending = [], failed = False\<rparr> (?out2 @ ?c) ''a_bin'') = (?out2 @ ?c) @ B"
    using parseAndDumpInput_acc by blast
  have "multiLoop example_world ?dump [''a.bin'', ''b.bin''] 0 True ?out2 [] =
        multiLoop example_world ?dump [''a.bin'', ''b.bin''] (0 + 1) True ((?out2 @ ?c) @ B) []"
    unfolding multiLoop_open_ok [OF lt f] using B by (simp add: resolvePrefix_a_bin)
  moreover obtain R where "fst (snd (multiLoop example_world ?dump [''a.bin'', ''b.bin''] (0 + 1) True
       ((?out2 @ ?c) @ B) [])) = ((?out2 @ ?c) @ B) @ R"
    using multiLoop_extends [OF refl] by blast
  ultimately have out: "fst (snd (the ?run)) = ?out2 @ ?c @ B @ R"
    unfolding run by simp
  have t: "text_of (?out2 @ ?c @ B @ R) =
           ''namespace ns{'' @ CHR 0x0A # ''// Contents of a.bin:'' @ CHR 0x0A # text_of (B @ R)"
    by (simp add: text_of_def endl_def)
  have a: "CHR 0x0A \<notin> set ''namespace ns{''" by simp
  have b: "CHR 0x0A \<notin> set ''// Contents of a.bin:''" by simp
  have l: "lines_of (text_of (fst (snd (the ?run)))) =
           ''namespace ns{'' # ''// Contents of a.bin:'' # lines_of (text_of (B @ R))"
    unfolding out t lines_of_line [OF a] lines_of_line [OF b] by (rule refl)
  show ?thesis
    unfolding l using run by (simp add: spaces_4)
qed

text \<open>
  With a namespace, whatever the inputs are, the output is the output of the banner, then the
  opening scope line, then the items written for the inputs.
\<close>

lemma scope_line:
  assumes ns: "namespaceName \<noteq> []"
    and bn: "banner description copyrightMessage noCopyrightMessage width out = Some b"
  shows "\<exists>success out' err' R.
           buildPayloadHelper w inputs out err description copyrightMessage noCopyrightMessage
             indentation width namespaceName variableName variableType sizeVariableName
             sizeVariableType zlibCompress = Some (success, out', err')
           \<and> out' = b @ [''namespace '', namespaceName, ''{'', endl] @ R"
proof -
  let ?out2 = "b @ [''namespace '', namespaceName, ''{'', endl]"
  let ?dump = "\<lambda>k inputStream out prefix.
     parseAndDumpInput (qCompress w) (uninit w k) inputStream out indentation indentation width
       prefix variableName variableType sizeVariableName sizeVariableType zlibCompress"
  have blk: "\<And>k s. \<exists>R. snd (?dump k s ?out2 []) = ?out2 @ R"
    using parseAndDumpInput_acc by blast
  show ?thesis
  proof (cases "inputs = []")
    case True
    from blk [of 0 "stdin w"] obtain R where "snd (?dump 0 (stdin w) ?out2 []) = ?out2 @ R" ..
    then show ?thesis
      using ns bn True
      by (simp add: buildPayloadHelper_def Let_def split: prod.splits) (metis snd_conv)
  next
    case ne: False
    show ?thesis
    proof (cases "length inputs = 1")
      case True
      show ?thesis
      proof (cases "failed (ifstream_open w (inputs ! 0))")
        case f: True
        have "buildPayloadHelper w inputs out err description copyrightMessage noCopyrightMessage
             indentation width namespaceName variableName variableType sizeVariableName
             sizeVariableType zlibCompress =
             Some (False, ?out2, err @ [''*** Could not open input file '', inputs ! 0, endl])"
          using ns bn ne True f by (simp add: buildPayloadHelper_def Let_def)
        moreover have "?out2 = b @ [''namespace '', namespaceName, ''{'', endl] @ []" by simp
        ultimately show ?thesis by blast
      next
        case f: False
        from blk [of 0 "ifstream_open w (inputs ! 0)"] obtain R where
          "snd (?dump 0 (ifstream_open w (inputs ! 0)) ?out2 []) = ?out2 @ R" ..
        then show ?thesis
          using ns bn ne True f
          by (simp add: buildPayloadHelper_def Let_def split: prod.splits) (metis snd_conv)
      qed
    next
      case False
      obtain R where
        R: "fst (snd (multiLoop w ?dump inputs 0 True ?out2 err)) = ?out2 @ R"
        using multiLoop_extends [OF refl] by blast
      obtain s o3 e3 where m: "multiLoop w ?dump inputs 0 True ?out2 err = (s, o3, e3)"
        by (metis prod_cases3)
      have "buildPayloadHelper w inputs out err description copyrightMessage noCopyrightMessage
             indentation width namespaceName variableName variableType sizeVariableName
             sizeVariableType zlibCompress = Some (s, o3, e3)"
        using ns bn ne False m by (simp add: buildPayloadHelper_def Let_def)
      moreover have "o3 = b @ [''namespace '', namespaceName, ''{'', endl] @ R"
        using R m by simp
      ultimately show ?thesis by blast
    qed
  qed
qed

text \<open>
  The lines after the opening scope line, when the names, types and paths hold no newline.
\<close>

lemma payload_lines:
  assumes ns: "namespaceName \<noteq> []"
    and bn: "banner description copyrightMessage noCopyrightMessage width out = Some b"
    and run: "buildPayloadHelper w inputs out err description copyrightMessage noCopyrightMessage
             indentation width namespaceName variableName variableType sizeVariableName
             sizeVariableType zlibCompress = Some (success, out', err')"
    and nonl: "CHR 0x0A \<notin> set variableType" "CHR 0x0A \<notin> set variableName"
              "CHR 0x0A \<notin> set sizeVariableName" "CHR 0x0A \<notin> set sizeVariableType"
    and paths: "\<forall>p \<in> set inputs. CHR 0x0A \<notin> set p"
  shows "\<exists>payload.
           text_of out' = text_of (b @ [''namespace '', namespaceName, ''{'', endl]) @ payload
           \<and> (\<forall>l \<in> set (lines_of payload).
                 payload_line (unat indentation) (unat (indentation + indentation))
                   variableType sizeVariableType inputs l)"
proof -
  let ?out2 = "b @ [''namespace '', namespaceName, ''{'', endl]"
  let ?dump = "\<lambda>k inputStream out prefix.
     parseAndDumpInput (qCompress w) (uninit w k) inputStream out indentation indentation width
       prefix variableName variableType sizeVariableName sizeVariableType zlibCompress"
  let ?ok = "payload_line (unat indentation) (unat (indentation + indentation))
                   variableType sizeVariableType inputs"
  have blk: "\<And>k s. \<exists>payload. text_of (snd (?dump k s ?out2 [])) = text_of ?out2 @ payload
        \<and> (\<forall>l \<in> set (lines_of payload). ?ok l)"
  proof -
    fix k s
    have "text_of (snd (?dump k s ?out2 [])) = text_of ?out2 @ text_of (snd (?dump k s [] []))"
      by (subst parseAndDumpInput_acc) (simp add: text_of_def)
    moreover have "\<forall>l \<in> set (lines_of (text_of (snd (?dump k s [] [])))). ?ok l"
      by (rule block_lines [OF nonl(1) _ nonl(2,3,4)]) simp
    ultimately show "\<exists>payload. text_of (snd (?dump k s ?out2 [])) = text_of ?out2 @ payload
        \<and> (\<forall>l \<in> set (lines_of payload). ?ok l)"
      by blast
  qed
  have empty: "\<forall>l \<in> set (lines_of []). ?ok l"
    by (simp add: payload_line_def)
  show ?thesis
  proof (cases "inputs = []")
    case True
    with run ns bn have "out' = snd (?dump 0 (stdin w) ?out2 [])"
      by (auto simp: buildPayloadHelper_def Let_def split: prod.splits)
    with blk [of 0 "stdin w"] show ?thesis by simp
  next
    case ne: False
    show ?thesis
    proof (cases "length inputs = 1")
      case True
      show ?thesis
      proof (cases "failed (ifstream_open w (inputs ! 0))")
        case f: True
        with run ns bn ne True have "out' = ?out2"
          by (auto simp: buildPayloadHelper_def Let_def)
        then have "text_of out' = text_of ?out2 @ []" by simp
        with empty show ?thesis by blast
      next
        case f: False
        with run ns bn ne True have "out' = snd (?dump 0 (ifstream_open w (inputs ! 0)) ?out2 [])"
          by (auto simp: buildPayloadHelper_def Let_def split: prod.splits)
        with blk [of 0 "ifstream_open w (inputs ! 0)"] show ?thesis by simp
      qed
    next
      case False
      with ne have many: "1 < length inputs" by (cases inputs) auto
      from run ns bn ne False have "out' = fst (snd (multiLoop w ?dump inputs 0 True ?out2 err))"
        by (auto simp: buildPayloadHelper_def Let_def)
      with multi_lines [OF refl nonl paths many, of w "qCompress w" "uninit w" indentation
          indentation width zlibCompress 0 ?out2 err]
      show ?thesis by blast
    qed
  qed
qed

text \<open>
  Claim C9, amended. Let the namespace name be non-empty and let the banner loops end: no
  banner is printed, or the width is neither 0 nor \<open>2^32 - 1\<close> and, where the copyright
  message and a description are both printed, not 3. Then \<^verbatim>\<open>buildPayloadHelper\<close> returns, and
  its output is the banner, then the opening scope line, then the payload. If moreover the
  names, types and paths hold no newline, then every line of the payload is blank; or is
  \<open>indentation\<close> spaces followed directly by \<^verbatim>\<open>};\<close>, by the variable type and a space (the
  declaration header) or by the size type and a space (the size declaration); or is
  \<open>(indentation + indentation) mod 2^32\<close> spaces followed directly by a hex token (a content
  line); or, with more than one input, is the comment line \<^verbatim>\<open>// Contents of <path>:\<close> of an
  input, written without indentation.
\<close>

theorem C9_scope_and_margin:
  assumes ns: "namespaceName \<noteq> []"
    and ends: "(noCopyrightMessage \<and> description = []) \<or>
               (width \<noteq> - 1 \<and> width \<noteq> 0 \<and> (noCopyrightMessage \<or> description = [] \<or> width \<noteq> 3))"
  shows "\<exists>b success out' err' payload.
           banner description copyrightMessage noCopyrightMessage width out = Some b
           \<and> buildPayloadHelper w inputs out err description copyrightMessage noCopyrightMessage
                 indentation width namespaceName variableName variableType sizeVariableName
                 sizeVariableType zlibCompress = Some (success, out', err')
           \<and> text_of out' = text_of b @ ''namespace '' @ namespaceName @ ''{'' @ endl @ payload
           \<and> (CHR 0x0A \<notin> set variableType \<and> CHR 0x0A \<notin> set variableName
                \<and> CHR 0x0A \<notin> set sizeVariableName \<and> CHR 0x0A \<notin> set sizeVariableType
                \<and> (\<forall>p \<in> set inputs. CHR 0x0A \<notin> set p) \<longrightarrow>
              (\<forall>l \<in> set (lines_of payload).
                 payload_line (unat indentation) (unat (indentation + indentation))
                   variableType sizeVariableType inputs l))"
proof -
  from banner_returns [OF ends] obtain b where
    b: "banner description copyrightMessage noCopyrightMessage width out = Some b" by blast
  from scope_line [OF ns b] obtain success out' err' R where
    run: "buildPayloadHelper w inputs out err description copyrightMessage noCopyrightMessage
             indentation width namespaceName variableName variableType sizeVariableName
             sizeVariableType zlibCompress = Some (success, out', err')"
    and out': "out' = b @ [''namespace '', namespaceName, ''{'', endl] @ R"
    by blast
  have t: "text_of out' = text_of b @ ''namespace '' @ namespaceName @ ''{'' @ endl @ text_of R"
    unfolding out' by (simp add: text_of_def)
  have "\<forall>l \<in> set (lines_of (text_of R)).
          payload_line (unat indentation) (unat (indentation + indentation))
            variableType sizeVariableType inputs l"
    if nonl: "CHR 0x0A \<notin> set variableType \<and> CHR 0x0A \<notin> set variableName
                \<and> CHR 0x0A \<notin> set sizeVariableName \<and> CHR 0x0A \<notin> set sizeVariableType
                \<and> (\<forall>p \<in> set inputs. CHR 0x0A \<notin> set p)"
  proof -
    from nonl have n: "CHR 0x0A \<notin> set variableType" "CHR 0x0A \<notin> set variableName"
      "CHR 0x0A \<notin> set sizeVariableName" "CHR 0x0A \<notin> set sizeVariableType"
      and p: "\<forall>p \<in> set inputs. CHR 0x0A \<notin> set p" by simp_all
    from payload_lines [OF ns b run n p] obtain payload where
      q: "text_of out' = text_of (b @ [''namespace '', namespaceName, ''{'', endl]) @ payload"
         "\<forall>l \<in> set (lines_of payload).
            payload_line (unat indentation) (unat (indentation + indentation))
              variableType sizeVariableType inputs l"
      by blast
    from q(1) have "payload = text_of R"
      unfolding out' by (simp add: text_of_def)
    with q(2) show ?thesis by simp
  qed
  with b run t show ?thesis by blast
qed

text \<open>
  The theorem at namespace \<^verbatim>\<open>ns\<close>, two inputs, indentation 4 and width 3, with the banner of
  the default copyright message and no description.
\<close>

theorem C9_scope_and_margin_witness:
  "''ns'' \<noteq> []
   \<and> (3 :: uint) \<noteq> - 1 \<and> (3 :: uint) \<noteq> 0 \<and> ([] :: string) = []
   \<and> CHR 0x0A \<notin> set ''static const unsigned char'' \<and> CHR 0x0A \<notin> set ''declarations''
   \<and> CHR 0x0A \<notin> set ''declarationsSize'' \<and> CHR 0x0A \<notin> set ''static const unsigned long''
   \<and> CHR 0x0A \<notin> set ''a.bin'' \<and> CHR 0x0A \<notin> set ''b.bin''
   \<and> (\<exists>b success out' err' payload.
         banner [] (m_copyrightMessage initial_state) False 3 [] = Some b
         \<and> buildPayloadHelper example_world [''a.bin'', ''b.bin''] [] [] []
               (m_copyrightMessage initial_state) False 4 3 ''ns''
               ''declarations'' ''static const unsigned char'' ''declarationsSize''
               ''static const unsigned long'' False = Some (success, out', err')
         \<and> text_of out' = text_of b @ ''namespace '' @ ''ns'' @ ''{'' @ endl @ payload
         \<and> (\<forall>l \<in> set (lines_of payload).
               payload_line (unat (4 :: uint)) (unat (4 + 4 :: uint))
                 ''static const unsigned char'' ''static const unsigned long''
                 [''a.bin'', ''b.bin''] l))"
proof -
  have 1: "''ns'' \<noteq> []" by simp
  have 2: "(3 :: uint) \<noteq> - 1" "(3 :: uint) \<noteq> 0" "([] :: string) = []" by simp_all
  then have ends: "(False \<and> ([] :: string) = []) \<or>
     ((3 :: uint) \<noteq> - 1 \<and> (3 :: uint) \<noteq> 0 \<and> (False \<or> ([] :: string) = [] \<or> (3 :: uint) \<noteq> 3))"
    by simp
  have 3: "CHR 0x0A \<notin> set ''static const unsigned char''" "CHR 0x0A \<notin> set ''declarations''"
    "CHR 0x0A \<notin> set ''declarationsSize''" "CHR 0x0A \<notin> set ''static const unsigned long''"
    by simp_all
  have 4: "CHR 0x0A \<notin> set ''a.bin''" "CHR 0x0A \<notin> set ''b.bin''" by simp_all
  then have 5: "\<forall>p \<in> set [''a.bin'', ''b.bin'']. CHR 0x0A \<notin> set p" by simp
  from C9_scope_and_margin [OF 1 ends, of "m_copyrightMessage initial_state" "[]"
      example_world "[''a.bin'', ''b.bin'']" "[]" 4 "''declarations''"
      "''static const unsigned char''" "''declarationsSize''" "''static const unsigned long''" False]
    1 2 3 4 5
  show ?thesis by blast
qed

end
